theory Spec2Isabelle
  imports Complex_Main "HOL-Library.Sublist" "HOL-Library.Code_Target_Nat"
begin

section \<open>JavaScript strings\<close>

text \<open>
  The engine (\<^verbatim>\<open>src/lib/text-processor.ts\<close>, class \<^verbatim>\<open>TextProcessor\<close>) works on
  JavaScript strings, which are sequences of UTF-16 code units: \<^verbatim>\<open>length\<close>,
  \<^verbatim>\<open>charCodeAt\<close>, \<^verbatim>\<open>includes\<close> and regular expressions without the \<^verbatim>\<open>u\<close> flag all
  count code units. A string is modelled as the list of its code units; \<open>js\<close> embeds an
  ASCII literal.
\<close>

type_synonym jsstring = "nat list"

abbreviation js :: "string \<Rightarrow> jsstring" where
  "js s \<equiv> map of_char s"

abbreviation dq :: jsstring where
  "dq \<equiv> [34]"

abbreviation sq :: jsstring where
  "sq \<equiv> [39]"

abbreviation bt :: jsstring where
  "bt \<equiv> [96]"

text \<open>
  White space as \<^verbatim>\<open>String.prototype.trim\<close> and the class escape \<^verbatim>\<open>\s\<close> define it:
  the WhiteSpace and LineTerminator code points of ECMAScript.
\<close>

definition spaceChars :: "nat list" where
  "spaceChars = [9, 10, 11, 12, 13, 32, 160, 5760] @ [8192..<8203] @ [8232, 8233, 8239, 8287, 12288, 65279]"

definition isSpace :: "nat \<Rightarrow> bool" where
  "isSpace c = (c \<in> {9, 10, 11, 12, 13, 32, 160, 5760, 8232, 8233, 8239, 8287, 12288, 65279}
                \<or> (8192 \<le> c \<and> c \<le> 8202))"

definition dropTrailing :: "(nat \<Rightarrow> bool) \<Rightarrow> jsstring \<Rightarrow> jsstring" where
  "dropTrailing P s = rev (dropWhile P (rev s))"

definition trim :: "jsstring \<Rightarrow> jsstring" where
  "trim s = dropTrailing isSpace (dropWhile isSpace s)"

text \<open>\<^verbatim>\<open>s.includes(t)\<close>: \<open>t\<close> occurs in \<open>s\<close> as a contiguous run.\<close>

fun str_includes :: "jsstring \<Rightarrow> jsstring \<Rightarrow> bool" where
  "str_includes [] t = (t = [])"
| "str_includes (c # cs) t = (prefix t (c # cs) \<or> str_includes cs t)"

text \<open>\<^verbatim>\<open>s.indexOf(t)\<close>, with \<open>None\<close> for \<^verbatim>\<open>-1\<close>.\<close>

fun indexOf :: "jsstring \<Rightarrow> jsstring \<Rightarrow> nat option" where
  "indexOf [] t = (if t = [] then Some 0 else None)"
| "indexOf (c # cs) t = (if prefix t (c # cs) then Some 0 else map_option Suc (indexOf cs t))"

definition startsWith :: "jsstring \<Rightarrow> jsstring \<Rightarrow> bool" where
  "startsWith s t = prefix t s"

definition endsWith :: "jsstring \<Rightarrow> jsstring \<Rightarrow> bool" where
  "endsWith s t = suffix t s"

text \<open>
  \<^verbatim>\<open>s.slice(a, b)\<close>: a negative index counts from the end, both are clamped to the string.
  \<^verbatim>\<open>s.substring(a, b)\<close>: negative indices are 0, and the two are swapped when \<open>b < a\<close>.
\<close>

definition slice :: "jsstring \<Rightarrow> int \<Rightarrow> int \<Rightarrow> jsstring" where
  "slice s a b =
     (let n = int (length s);
          from = (if a < 0 then max (n + a) 0 else min a n);
          to = (if b < 0 then max (n + b) 0 else min b n)
      in take (nat (to - from)) (drop (nat from) s))"

definition substring :: "jsstring \<Rightarrow> int \<Rightarrow> int \<Rightarrow> jsstring" where
  "substring s a b =
     (let n = int (length s);
          a' = min (max a 0) n;
          b' = min (max b 0) n;
          from = min a' b';
          to = max a' b'
      in take (nat (to - from)) (drop (nat from) s))"

text \<open>\<^verbatim>\<open>s.split(d)\<close> and \<^verbatim>\<open>xs.join(d)\<close> for a separator of one code unit.\<close>

fun splitOn :: "nat \<Rightarrow> jsstring \<Rightarrow> jsstring list" where
  "splitOn d [] = [[]]"
| "splitOn d (c # cs) =
     (if c = d then [] # splitOn d cs
      else (case splitOn d cs of [] \<Rightarrow> [[c]] | x # xs \<Rightarrow> (c # x) # xs))"

fun joinWith :: "nat \<Rightarrow> jsstring list \<Rightarrow> jsstring" where
  "joinWith d [] = []"
| "joinWith d [x] = x"
| "joinWith d (x # y # r) = x @ d # joinWith d (y # r)"

text \<open>
  \<^verbatim>\<open>Array.from(s)\<close> iterates code points: a high surrogate followed by a low surrogate
  is one element of two code units.
\<close>

fun codePoints :: "jsstring \<Rightarrow> jsstring list" where
  "codePoints [] = []"
| "codePoints [c] = [[c]]"
| "codePoints (c # d # r) =
     (if 0xD800 \<le> c \<and> c \<le> 0xDBFF \<and> 0xDC00 \<le> d \<and> d \<le> 0xDFFF
      then [c, d] # codePoints r
      else [c] # codePoints (d # r))"

text \<open>
  The replacement string of \<^verbatim>\<open>String.prototype.replace\<close> is not literal: \<^verbatim>\<open>$$\<close> stands
  for a dollar sign, \<^verbatim>\<open>$&\<close> for the matched text, \<^verbatim>\<open>$`\<close> and \<^verbatim>\<open>$'\<close> for the text
  before and after the match. None of the patterns of the engine that take a replacement
  string has a capture group, so \<^verbatim>\<open>$1\<close> and the like stay as they are.
\<close>

fun getSubstitution :: "jsstring \<Rightarrow> jsstring \<Rightarrow> jsstring \<Rightarrow> jsstring \<Rightarrow> jsstring" where
  "getSubstitution matched pre post [] = []"
| "getSubstitution matched pre post [c] = [c]"
| "getSubstitution matched pre post (c # d # r) =
     (if c = 36 \<and> d = 36 then 36 # getSubstitution matched pre post r
      else if c = 36 \<and> d = 38 then matched @ getSubstitution matched pre post r
      else if c = 36 \<and> d = 96 then pre @ getSubstitution matched pre post r
      else if c = 36 \<and> d = 39 then post @ getSubstitution matched pre post r
      else c # getSubstitution matched pre post (d # r))"

text \<open>
  \<^verbatim>\<open>s.replace(new RegExp(escapeRegex(pat), 'g'), rep)\<close>: \<^verbatim>\<open>escapeRegex\<close> puts a
  backslash before every character that is special in a pattern, so the expression
  matches \<open>pat\<close> literally; the matches are taken from left to right without overlap. An
  empty \<open>pat\<close> matches before every code unit and at the end. \<open>pre\<close> is the text already
  passed.
\<close>

function replaceAllFrom :: "jsstring \<Rightarrow> jsstring \<Rightarrow> jsstring \<Rightarrow> jsstring \<Rightarrow> jsstring" where
  "replaceAllFrom pat rep pre s =
     (if pat \<noteq> [] \<and> prefix pat s
      then getSubstitution pat pre (drop (length pat) s) rep
             @ replaceAllFrom pat rep (pre @ pat) (drop (length pat) s)
      else (if pat = [] then getSubstitution [] pre s rep else [])
             @ (case s of [] \<Rightarrow> [] | c # cs \<Rightarrow> c # replaceAllFrom pat rep (pre @ [c]) cs))"
  by pat_completeness auto
termination
  by (relation "measure (\<lambda>(pat, rep, pre, s). length s)") (auto simp: prefix_def)

definition replaceAll :: "jsstring \<Rightarrow> jsstring \<Rightarrow> jsstring \<Rightarrow> jsstring" where
  "replaceAll pat rep s = replaceAllFrom pat rep [] s"

text \<open>\<^verbatim>\<open>s.replace(pat, rep)\<close> with a string pattern: the first occurrence only.\<close>

fun replaceFirstFrom :: "jsstring \<Rightarrow> jsstring \<Rightarrow> jsstring \<Rightarrow> jsstring \<Rightarrow> jsstring" where
  "replaceFirstFrom pat rep pre [] = (if pat = [] then getSubstitution [] pre [] rep else [])"
| "replaceFirstFrom pat rep pre (c # cs) =
     (if prefix pat (c # cs)
      then getSubstitution pat pre (drop (length pat) (c # cs)) rep @ drop (length pat) (c # cs)
      else c # replaceFirstFrom pat rep (pre @ [c]) cs)"

definition replaceFirst :: "jsstring \<Rightarrow> jsstring \<Rightarrow> jsstring \<Rightarrow> jsstring" where
  "replaceFirst pat rep s = replaceFirstFrom pat rep [] s"

text \<open>
  \<^verbatim>\<open>s.replace(/[...]/g, rep)\<close> for a class of single code units, and
  \<^verbatim>\<open>s.replace(/\s+/g, ' ')\<close>.
\<close>

definition replaceChars :: "nat list \<Rightarrow> jsstring \<Rightarrow> jsstring \<Rightarrow> jsstring" where
  "replaceChars cls rep s = concat (map (\<lambda>c. if c \<in> set cls then rep else [c]) s)"

function collapseSpaces :: "jsstring \<Rightarrow> jsstring" where
  "collapseSpaces [] = []"
| "collapseSpaces (c # cs) =
     (if isSpace c then 32 # collapseSpaces (dropWhile isSpace cs) else c # collapseSpaces cs)"
  by pat_completeness auto
termination
  by (relation "measure length") (auto simp: less_Suc_eq_le length_dropWhile_le)

text \<open>
  What the engine takes from the JavaScript library and cannot be written out here: the
  Unicode lower-casing of \<^verbatim>\<open>toLowerCase\<close>, and the canonicalisation of a code unit under
  the \<^verbatim>\<open>i\<close> flag of a regular expression. Both are parameters of the model.
\<close>

record jslib =
  toLowerCase :: "jsstring \<Rightarrow> jsstring"
  canonicalize :: "nat \<Rightarrow> nat"

definition asciiLib :: jslib where
  "asciiLib =
     \<lparr> toLowerCase = map (\<lambda>c. if 65 \<le> c \<and> c \<le> 90 then c + 32 else c),
       canonicalize = (\<lambda>c. if 97 \<le> c \<and> c \<le> 122 then c - 32 else c) \<rparr>"

section \<open>Regular expressions\<close>

text \<open>
  The regular expressions of the engine, as a datatype with the backtracking semantics of
  ECMAScript: \<open>rx_run r b s\<close> lists, in the order in which the matcher tries them, the
  rests of \<open>s\<close> that remain after a match of \<open>r\<close> at the head of \<open>s\<close>; \<open>b\<close> says that the
  head of \<open>s\<close> is the start of the input. \<open>Star\<close> is greedy, \<open>Lazy\<close> is \<^verbatim>\<open>*?\<close>; an
  iteration that consumes nothing is not repeated.
\<close>

datatype rx =
    Eps
  | Sym "nat \<Rightarrow> bool"
  | Seq rx rx
  | Alt rx rx
  | Star rx
  | Lazy rx
  | Bos
  | Eos

function rx_run :: "rx \<Rightarrow> bool \<Rightarrow> jsstring \<Rightarrow> jsstring list" where
  "rx_run Eps b s = [s]"
| "rx_run (Sym p) b s = (case s of [] \<Rightarrow> [] | c # cs \<Rightarrow> if p c then [cs] else [])"
| "rx_run (Seq r1 r2) b s =
     concat (map (\<lambda>s1. rx_run r2 (b \<and> length s1 = length s) s1) (rx_run r1 b s))"
| "rx_run (Alt r1 r2) b s = rx_run r1 b s @ rx_run r2 b s"
| "rx_run (Star r) b s =
     concat (map (\<lambda>s1. if length s1 < length s then rx_run (Star r) False s1 else []) (rx_run r b s))
       @ [s]"
| "rx_run (Lazy r) b s =
     s # concat (map (\<lambda>s1. if length s1 < length s then rx_run (Lazy r) False s1 else [])
                   (rx_run r b s))"
| "rx_run Bos b s = (if b then [s] else [])"
| "rx_run Eos b s = (if s = [] then [s] else [])"
  by pat_completeness auto
termination
  by (relation "measures [\<lambda>(r, b, s). size r, \<lambda>(r, b, s). length s]") auto

declare rx_run.simps(5,6) [simp del]

definition rx_plus :: "rx \<Rightarrow> rx" where
  "rx_plus r = Seq r (Star r)"

definition chr :: "nat \<Rightarrow> rx" where
  "chr c = Sym (\<lambda>x. x = c)"

definition oneOf :: "nat list \<Rightarrow> rx" where
  "oneOf cs = Sym (\<lambda>x. x \<in> set cs)"

definition noneOf :: "nat list \<Rightarrow> rx" where
  "noneOf cs = Sym (\<lambda>x. x \<notin> set cs)"

definition lit :: "jsstring \<Rightarrow> rx" where
  "lit s = foldr (\<lambda>c r. Seq (chr c) r) s Eps"

definition seqs :: "rx list \<Rightarrow> rx" where
  "seqs rs = foldr Seq rs Eps"

text \<open>Under the \<^verbatim>\<open>i\<close> flag a code unit matches when the canonical forms agree.\<close>

definition ioneOf :: "jslib \<Rightarrow> nat list \<Rightarrow> rx" where
  "ioneOf L cs = Sym (\<lambda>x. \<exists>a \<in> set cs. canonicalize L a = canonicalize L x)"

definition inoneOf :: "jslib \<Rightarrow> nat list \<Rightarrow> rx" where
  "inoneOf L cs = Sym (\<lambda>x. \<not> (\<exists>a \<in> set cs. canonicalize L a = canonicalize L x))"

definition ilit :: "jslib \<Rightarrow> jsstring \<Rightarrow> rx" where
  "ilit L s = foldr (\<lambda>c r. Seq (ioneOf L [c]) r) s Eps"

definition digitChars :: "nat list" where
  "digitChars = js ''0123456789''"

definition letterChars :: "nat list" where
  "letterChars = js ''abcdefghijklmnopqrstuvwxyzABCDEFGHIJKLMNOPQRSTUVWXYZ''"

definition wordChars :: "nat list" where
  "wordChars = letterChars @ digitChars @ js ''_''"

text \<open>\<^verbatim>\<open>.\<close> matches every code unit but the line terminators.\<close>

definition anyChar :: rx where
  "anyChar = noneOf [10, 13, 8232, 8233]"

text \<open>
  The first match at the head of \<open>s\<close>, as the matched text and the rest; the leftmost
  match in \<open>s\<close>, as the text before it, the matched text and the rest.
\<close>

definition rx_matchAt :: "rx \<Rightarrow> bool \<Rightarrow> jsstring \<Rightarrow> (jsstring \<times> jsstring) option" where
  "rx_matchAt r b s =
     (case rx_run r b s of [] \<Rightarrow> None
      | rest # _ \<Rightarrow> Some (take (length s - length rest) s, rest))"

fun rx_searchFrom :: "rx \<Rightarrow> jsstring \<Rightarrow> jsstring \<Rightarrow> (jsstring \<times> jsstring \<times> jsstring) option" where
  "rx_searchFrom r pre [] =
     (case rx_matchAt r (pre = []) [] of None \<Rightarrow> None | Some (m, rest) \<Rightarrow> Some (pre, m, rest))"
| "rx_searchFrom r pre (c # cs) =
     (case rx_matchAt r (pre = []) (c # cs) of
        None \<Rightarrow> rx_searchFrom r (pre @ [c]) cs
      | Some (m, rest) \<Rightarrow> Some (pre, m, rest))"

definition rx_exec :: "rx \<Rightarrow> jsstring \<Rightarrow> (jsstring \<times> jsstring \<times> jsstring) option" where
  "rx_exec r s = rx_searchFrom r [] s"

definition rx_test :: "rx \<Rightarrow> jsstring \<Rightarrow> bool" where
  "rx_test r s = (rx_exec r s \<noteq> None)"

text \<open>
  \<^verbatim>\<open>s.replace(r, f)\<close> for a global \<open>r\<close>: every match, from left to right, is replaced by
  \<open>f matched before after\<close>. After an empty match the matcher moves on by one code unit.
  \<open>rx_matchAll\<close> is the list of the matched texts (\<^verbatim>\<open>s.match(r)\<close> for a global \<open>r\<close>, or
  the loop over \<^verbatim>\<open>r.exec(s)\<close>).
\<close>

function rx_replaceAllFrom ::
  "rx \<Rightarrow> (jsstring \<Rightarrow> jsstring \<Rightarrow> jsstring \<Rightarrow> jsstring) \<Rightarrow> jsstring \<Rightarrow> jsstring \<Rightarrow> jsstring" where
  "rx_replaceAllFrom r f pre s =
     (case rx_run r (pre = []) s of
        [] \<Rightarrow> (case s of [] \<Rightarrow> [] | c # cs \<Rightarrow> c # rx_replaceAllFrom r f (pre @ [c]) cs)
      | rest # _ \<Rightarrow>
          if length rest < length s
          then f (take (length s - length rest) s) pre rest
                 @ rx_replaceAllFrom r f (pre @ take (length s - length rest) s) rest
          else f [] pre s
                 @ (case s of [] \<Rightarrow> [] | c # cs \<Rightarrow> c # rx_replaceAllFrom r f (pre @ [c]) cs))"
  by pat_completeness auto
termination
  by (relation "measure (\<lambda>(r, f, pre, s). length s)") auto

definition rx_replaceAll :: "rx \<Rightarrow> (jsstring \<Rightarrow> jsstring \<Rightarrow> jsstring \<Rightarrow> jsstring) \<Rightarrow> jsstring \<Rightarrow> jsstring" where
  "rx_replaceAll r f s = rx_replaceAllFrom r f [] s"

definition rx_replace :: "rx \<Rightarrow> jsstring \<Rightarrow> jsstring \<Rightarrow> jsstring" where
  "rx_replace r rep s =
     (case rx_exec r s of None \<Rightarrow> s
      | Some (pre, m, rest) \<Rightarrow> pre @ getSubstitution m pre rest rep @ rest)"

function rx_matchAllFrom :: "rx \<Rightarrow> jsstring \<Rightarrow> jsstring \<Rightarrow> jsstring list" where
  "rx_matchAllFrom r pre s =
     (case rx_run r (pre = []) s of
        [] \<Rightarrow> (case s of [] \<Rightarrow> [] | c # cs \<Rightarrow> rx_matchAllFrom r (pre @ [c]) cs)
      | rest # _ \<Rightarrow>
          if length rest < length s
          then take (length s - length rest) s
                 # rx_matchAllFrom r (pre @ take (length s - length rest) s) rest
          else [] # (case s of [] \<Rightarrow> [] | c # cs \<Rightarrow> rx_matchAllFrom r (pre @ [c]) cs))"
  by pat_completeness auto
termination
  by (relation "measure (\<lambda>(r, pre, s). length s)") auto

definition rx_matchAll :: "rx \<Rightarrow> jsstring \<Rightarrow> jsstring list" where
  "rx_matchAll r s = rx_matchAllFrom r [] s"

section \<open>Text normalizer\<close>

text \<open>
  \<^verbatim>\<open>cleanSearchText\<close>: trim; replace the named entities, in the order of the table;
  map the no-break space, the ellipsis and the curly quotation marks to ASCII; collapse
  white space; strip the quotation marks at both ends; strip one final period; trim.
\<close>

definition entityMap :: "(jsstring \<times> jsstring) list" where
  "entityMap =
     [(js ''&ldquo;'', dq), (js ''&rdquo;'', dq), (js ''&lsquo;'', sq), (js ''&rsquo;'', sq),
      (js ''&quot;'', dq), (js ''&#39;'', sq), (js ''&amp;'', js ''&''), (js ''&lt;'', js ''<''),
      (js ''&gt;'', js ''>''), (js ''&ndash;'', js ''-''), (js ''&mdash;'', js ''-''),
      (js ''&nbsp;'', js '' ''), (js ''&hellip;'', js ''...'')]"

definition isQuoteCode :: "nat \<Rightarrow> bool" where
  "isQuoteCode c =
     (c = 8220 \<or> c = 8221 \<or> c = 8216 \<or> c = 8217 \<or> c = 34 \<or> c = 39 \<or> c = 8222 \<or> c = 8218)"

definition stripFinalDot :: "jsstring \<Rightarrow> jsstring" where
  "stripFinalDot s = (if s \<noteq> [] \<and> last s = 46 then butlast s else s)"

definition cleanSearchText :: "jsstring \<Rightarrow> jsstring" where
  "cleanSearchText text =
     (let cleaned = trim text;
          cleaned = foldl (\<lambda>cl (entity, replacement). replaceAll entity replacement cl) cleaned entityMap;
          cleaned = replaceChars [0xA0] (js '' '') cleaned;
          cleaned = replaceChars [0x2026] (js ''...'') cleaned;
          cleaned = replaceChars [0x201C, 0x201D] dq cleaned;
          cleaned = replaceChars [0x2018, 0x2019] sq cleaned;
          cleaned = replaceChars [0x201E] dq cleaned;
          cleaned = replaceChars [0x201A] sq cleaned;
          cleaned = collapseSpaces cleaned;
          cleaned = dropWhile isQuoteCode cleaned;
          cleaned = dropTrailing isQuoteCode cleaned;
          cleaned = stripFinalDot cleaned
      in trim cleaned)"

section \<open>Variation generator\<close>

definition normalizeQuotes :: "jsstring \<Rightarrow> jsstring" where
  "normalizeQuotes str =
     (let normalized = str;
          normalized = replaceChars [0x201C, 0x201D] dq normalized;
          normalized = replaceChars [0x2018, 0x2019] sq normalized;
          normalized = replaceChars [0x201E] dq normalized;
          normalized = replaceChars [0x201A] sq normalized;
          normalized = replaceChars [0xAB, 0xBB] dq normalized;
          normalized = replaceChars [0x2039, 0x203A] sq normalized;
          normalized = replaceChars [0xA0] (js '' '') normalized;
          normalized = replaceChars [0x2026] (js ''...'') normalized;
          normalized = collapseSpaces normalized
      in normalized)"

text \<open>
  The classes of the source, as the code units a pattern without the \<^verbatim>\<open>u\<close> flag sees:
  an emoji outside the basic plane contributes its two surrogates as two members.
\<close>

definition quoteClass :: "nat list" where
  "quoteClass = [34, 39, 0x201E, 34, 34, 0x201A, 39, 39, 0xAB, 0xBB, 0x2039, 0x203A, 34, 34, 39, 39]"

definition emojiClass :: "nat list" where
  "emojiClass =
     [0x274C, 0x2705, 0xD83D, 0xDD25, 0xD83D, 0xDCA1, 0xD83D, 0xDCDA, 0x2B50, 0xD83C, 0xDFAF,
      0xD83D, 0xDE80, 0xD83D, 0xDCAA, 0xD83C, 0xDF1F, 0x2728, 0xD83C, 0xDF89, 0xD83D, 0xDD14,
      0xD83D, 0xDCDD, 0xD83D, 0xDCB0, 0xD83C, 0xDFC6, 0xD83C, 0xDF81, 0xD83D, 0xDD0D, 0xD83D,
      0xDCCA, 0xD83C, 0xDFAA, 0xD83C, 0xDFA8, 0xD83C, 0xDFB5, 0xD83C, 0xDFAE, 0xD83C, 0xDFB2,
      0xD83C, 0xDFAF, 0xD83C, 0xDFAA]"

definition symbolClass :: "nat list" where
  "symbolClass =
     [0x2713, 0xD7, 0x2022, 0x2192, 0x2190, 0x2191, 0x2193, 0x2605, 0x2606, 0x2666, 0x2660,
      0x2663, 0x2665]"

definition staticPrefixes :: "rx list" where
  "staticPrefixes =
     [seqs [Bos, oneOf emojiClass, Star (oneOf spaceChars)],
      seqs [Bos, oneOf symbolClass, Star (oneOf spaceChars)],
      seqs [Bos, rx_plus (oneOf digitChars), chr 46, Star (oneOf spaceChars)],
      seqs [Bos, oneOf letterChars, chr 41, Star (oneOf spaceChars)],
      seqs [Bos, oneOf [45, 0x2022], Star (oneOf spaceChars)]]"

definition staticSuffixes :: "rx list" where
  "staticSuffixes =
     [seqs [Star (oneOf spaceChars), oneOf emojiClass, Eos],
      seqs [Star (oneOf spaceChars), oneOf symbolClass, Eos]]"

text \<open>
  One round of the two loops of \<^verbatim>\<open>extractDynamicPart\<close>: the text without the match of
  the pattern and, when it differs from itself under \<open>normalizeQuotes\<close>, that form too.
\<close>

definition strippedVariations :: "jsstring \<Rightarrow> rx \<Rightarrow> jsstring list" where
  "strippedVariations text r =
     (let without = trim (rx_replace r [] text)
      in if without \<noteq> [] \<and> without \<noteq> text
         then without # (if normalizeQuotes without \<noteq> without then [normalizeQuotes without] else [])
         else [])"

text \<open>\<^verbatim>\<open>Array.from(new Set(xs))\<close> keeps the first occurrence of each element.\<close>

definition uniqueInOrder :: "'a list \<Rightarrow> 'a list" where
  "uniqueInOrder xs = rev (remdups (rev xs))"

definition extractDynamicPart :: "jsstring \<Rightarrow> jsstring list" where
  "extractDynamicPart text =
     (let variations = [text];
          normalizedText = normalizeQuotes text;
          variations = variations @ (if normalizedText \<noteq> text then [normalizedText] else []);
          withoutQuotes =
            trim (rx_replaceAll
                    (Alt (seqs [Bos, rx_plus (oneOf quoteClass)]) (seqs [rx_plus (oneOf quoteClass), Eos]))
                    (\<lambda>m pre post. []) text);
          variations = variations @
            (if withoutQuotes \<noteq> [] \<and> withoutQuotes \<noteq> text
             then withoutQuotes #
                    (if normalizeQuotes withoutQuotes \<noteq> withoutQuotes
                     then [normalizeQuotes withoutQuotes] else [])
             else []);
          variations = variations @ concat (map (strippedVariations text) staticPrefixes);
          variations = variations @ concat (map (strippedVariations text) staticSuffixes)
      in uniqueInOrder variations)"

section \<open>Match classifier\<close>

text \<open>
  \<^verbatim>\<open>isAttributeMatch\<close>: one of three patterns, compiled with the \<^verbatim>\<open>i\<close> flag, is found
  in the line: a word, \<^verbatim>\<open>=\<close>, and the variation inside a quoted or braced value.
\<close>

definition attributePattern :: "jslib \<Rightarrow> nat \<Rightarrow> nat \<Rightarrow> jsstring \<Rightarrow> rx" where
  "attributePattern L opening closing variation =
     seqs [rx_plus (ioneOf L wordChars), Star (ioneOf L spaceChars), ioneOf L [61],
           Star (ioneOf L spaceChars), ioneOf L [opening], Star (inoneOf L [closing]),
           ilit L variation, Star (inoneOf L [closing]), ioneOf L [closing]]"

definition isAttributeMatch_line :: "jslib \<Rightarrow> jsstring \<Rightarrow> jsstring \<Rightarrow> bool" where
  "isAttributeMatch_line L line variation =
     (let attributePatterns =
        [attributePattern L 34 34 variation,
         attributePattern L 39 39 variation,
         attributePattern L 123 125 variation]
      in list_ex (\<lambda>pattern. rx_test pattern line) attributePatterns)"

definition contentAttributes :: "jsstring list" where
  "contentAttributes =
     [js ''quote='', js ''title='', js ''alt='', js ''placeholder='', js ''label='', js ''content='',
      js ''description='', js ''text='', js ''value='', js ''message='', js ''caption='']"

definition isTextContentMatch_line :: "jslib \<Rightarrow> jsstring \<Rightarrow> jsstring \<Rightarrow> bool" where
  "isTextContentMatch_line L line variation =
     (if \<not> isAttributeMatch_line L line variation then True
      else
        let hasContentAttribute =
              list_ex (\<lambda>attr. str_includes (toLowerCase L line) (toLowerCase L attr)
                                \<and> str_includes line variation) contentAttributes
        in if hasContentAttribute then True
           else
             let lineWithoutAttributes = line;
                 lineWithoutAttributes =
                   rx_replaceAll (seqs [chr 34, Star (noneOf [34]), chr 34])
                     (\<lambda>m pre post. getSubstitution m pre post (dq @ dq)) lineWithoutAttributes;
                 lineWithoutAttributes =
                   rx_replaceAll (seqs [chr 39, Star (noneOf [39]), chr 39])
                     (\<lambda>m pre post. getSubstitution m pre post (sq @ sq)) lineWithoutAttributes;
                 lineWithoutAttributes =
                   rx_replaceAll (seqs [chr 123, Star (noneOf [125]), chr 125])
                     (\<lambda>m pre post. getSubstitution m pre post (js ''{}'')) lineWithoutAttributes
             in str_includes lineWithoutAttributes variation)"

section \<open>The exact-match predicate\<close>

definition hasExactTextMatch :: "jsstring \<Rightarrow> jsstring \<Rightarrow> bool" where
  "hasExactTextMatch line searchText =
     (let basicQuotedPatterns =
            [dq @ searchText @ dq,
             sq @ searchText @ sq,
             bt @ searchText @ bt,
             js ''&quot;'' @ searchText @ js ''&quot;'',
             js ''&ldquo;'' @ searchText @ js ''&rdquo;''];
          simplePatterns =
            [js ''='' @ dq @ searchText @ dq,
             js ''='' @ sq @ searchText @ sq,
             js '': '' @ dq @ searchText @ dq,
             js '': '' @ sq @ searchText @ sq,
             js ''quote='' @ dq @ searchText @ dq,
             js ''quote='' @ sq @ searchText @ sq,
             js ''text: '' @ sq @ searchText @ sq,
             js ''text: '' @ dq @ searchText @ dq];
          withPunctuation =
            [dq @ searchText @ js ''.'' @ dq,
             sq @ searchText @ js ''.'' @ sq,
             dq @ searchText @ js ''!'' @ dq,
             sq @ searchText @ js ''!'' @ sq,
             dq @ searchText @ js ''?'' @ dq,
             sq @ searchText @ js ''?'' @ sq,
             dq @ searchText @ js ''.'' @ dq @ js '','',
             sq @ searchText @ js ''.'' @ sq @ js '','',
             dq @ searchText @ dq @ js '','',
             sq @ searchText @ sq @ js '','',
             js ''quote='' @ dq @ searchText @ js ''.'' @ dq,
             js ''quote='' @ sq @ searchText @ js ''.'' @ sq,
             js ''text: '' @ sq @ searchText @ js ''.'' @ sq @ js '','',
             js ''text: '' @ dq @ searchText @ js ''.'' @ dq @ js '','',
             js ''text: '' @ sq @ searchText @ js ''.'' @ sq,
             js ''text: '' @ dq @ searchText @ js ''.'' @ dq,
             js ''&quot;'' @ searchText @ js ''.&quot;'',
             js ''&quot;'' @ searchText @ js ''&quot;'',
             js ''&ldquo;'' @ searchText @ js ''!&rdquo;'',
             js ''&ldquo;'' @ searchText @ js ''.&rdquo;'',
             js ''&ldquo;'' @ searchText @ js ''&rdquo;''];
          trimmedLine = trim line
      in if list_ex (str_includes line) basicQuotedPatterns then True
         else if list_ex (str_includes line) simplePatterns then True
         else if list_ex (str_includes line) withPunctuation then True
         else if trimmedLine = searchText \<or> trimmedLine = dq @ searchText @ dq
                   \<or> trimmedLine = sq @ searchText @ sq then True
         else if str_includes line (js ''>'' @ searchText @ js ''<'') then True
         else if trimmedLine = searchText \<or> trimmedLine = searchText @ js ''.''
                   \<or> trimmedLine = searchText @ js ''!'' \<or> trimmedLine = searchText @ js ''?'' then True
         else False)"

section \<open>Recovering the text as the file spells it\<close>

text \<open>
  One step of the two loops of \<^verbatim>\<open>findTextWithHtmlEntities\<close>: at index \<open>i\<close>, an entity
  \<^verbatim>\<open>/^&[a-zA-Z0-9#]+;/\<close> is passed whole, any other element singly; the result is the
  new index and the length of what was passed, normalised. The index counts the elements
  of \<^verbatim>\<open>Array.from(originalLine)\<close> where the source reads \<^verbatim>\<open>originalChars\<close>, and code units
  where it slices \<^verbatim>\<open>originalLine\<close>.
\<close>

definition entityPattern :: rx where
  "entityPattern = seqs [Bos, chr 38, rx_plus (oneOf (letterChars @ digitChars @ js ''#'')), chr 59]"

definition entityStep :: "jsstring \<Rightarrow> jsstring list \<Rightarrow> nat \<Rightarrow> nat \<times> nat" where
  "entityStep originalLine originalChars originalIndex =
     (let originalChar = originalChars ! originalIndex;
          entityMatch = (if originalChar = js ''&''
                         then rx_matchAt entityPattern True (drop originalIndex originalLine)
                         else None)
      in case entityMatch of
           Some (entity, rest) \<Rightarrow> (originalIndex + length entity, length (cleanSearchText entity))
         | None \<Rightarrow> (originalIndex + 1, length (cleanSearchText originalChar)))"

text \<open>
  The first loop runs while \<open>normalizedIndex < searchIndex\<close>, from 0. The second runs
  while \<open>remainingSearchLength > 0\<close>, counting down from the length of the search text:
  that is the first loop again, counting up to that length. Both stop at the end of
  \<^verbatim>\<open>originalChars\<close>; the result is the index reached.
\<close>

function advanceIndex :: "jsstring \<Rightarrow> jsstring list \<Rightarrow> nat \<Rightarrow> nat \<Rightarrow> nat \<Rightarrow> nat" where
  "advanceIndex originalLine originalChars limit originalIndex normalizedIndex =
     (if normalizedIndex < limit \<and> originalIndex < length originalChars
      then advanceIndex originalLine originalChars limit
             (fst (entityStep originalLine originalChars originalIndex))
             (normalizedIndex + snd (entityStep originalLine originalChars originalIndex))
      else originalIndex)"
  by pat_completeness auto
termination
proof (relation "measure (\<lambda>(l, cs, lim, oi, ni). length cs - oi)")
  show "wf (measure (\<lambda>(l, cs, lim, oi, ni). length cs - oi))"
    by simp
next
  fix originalLine :: jsstring and originalChars :: "jsstring list"
    and limit originalIndex normalizedIndex :: nat
  assume a: "normalizedIndex < limit \<and> originalIndex < length originalChars"
  have shorter: "\<forall>s' \<in> set (rx_run r b s). length s' \<le> length s" for r b s
  proof (induction r b s rule: rx_run.induct)
    case (3 r1 r2 b s)
    then show ?case by (subst rx_run.simps) fastforce
  next
    case (5 r b s)
    then show ?case by (subst rx_run.simps) (fastforce split: if_splits)
  next
    case (6 r b s)
    then show ?case by (subst rx_run.simps) (fastforce split: if_splits)
  qed (auto split: list.splits)
  have "length rest < length s" if "rx_matchAt entityPattern True s = Some (entity, rest)"
    for s entity rest
  proof -
    have "rest \<in> set (rx_run entityPattern True s)"
      using that by (auto simp: rx_matchAt_def split: list.splits)
    then obtain cs where "s = 38 # cs"
      and "59 # rest \<in> set (rx_run (rx_plus (oneOf (letterChars @ digitChars @ js ''#''))) False cs)"
      by (auto simp: entityPattern_def seqs_def chr_def split: list.splits if_splits)
    then show ?thesis using shorter by fastforce
  qed
  then have "entity \<noteq> []" if "rx_matchAt entityPattern True s = Some (entity, rest)"
    for s entity rest
    using that by (fastforce simp: rx_matchAt_def split: list.splits)
  then have "originalIndex < fst (entityStep originalLine originalChars originalIndex)"
    by (auto simp: entityStep_def Let_def split: option.splits)
  with a show "((originalLine, originalChars, limit,
                 fst (entityStep originalLine originalChars originalIndex),
                 normalizedIndex + snd (entityStep originalLine originalChars originalIndex)),
                originalLine, originalChars, limit, originalIndex, normalizedIndex)
               \<in> measure (\<lambda>(l, cs, lim, oi, ni). length cs - oi)"
    by auto
qed

definition findTextWithHtmlEntities :: "jsstring \<Rightarrow> jsstring \<Rightarrow> jsstring option" where
  "findTextWithHtmlEntities originalLine normalizedSearchText =
     (let normalizedLine = cleanSearchText originalLine
      in case indexOf normalizedLine normalizedSearchText of
           None \<Rightarrow> None
         | Some searchIndex \<Rightarrow>
             let originalChars = codePoints originalLine;
                 candidateStart = advanceIndex originalLine originalChars searchIndex 0 0;
                 originalIndex =
                   advanceIndex originalLine originalChars (length normalizedSearchText)
                     candidateStart 0;
                 candidate = slice originalLine (int candidateStart) (int originalIndex)
             in if cleanSearchText candidate = normalizedSearchText then Some candidate else None)"

text \<open>
  The last resort of \<^verbatim>\<open>extractOriginalTextFromLine\<close>: the two nested loops over the
  length, from \<open>searchLength + 10\<close> down to \<open>searchLength - 5\<close>, and the start of a
  substring of the line that normalises to the search text.
\<close>

function scanStarts :: "jsstring \<Rightarrow> jsstring \<Rightarrow> int \<Rightarrow> int \<Rightarrow> jsstring option" where
  "scanStarts originalLine normalizedSearchText len start =
     (if start \<le> int (length originalLine) - len
      then let candidate = substring originalLine start (start + len)
           in if cleanSearchText candidate = normalizedSearchText then Some candidate
              else scanStarts originalLine normalizedSearchText len (start + 1)
      else None)"
  by pat_completeness auto
termination
  by (relation "measure (\<lambda>(l, t, len, start). nat (int (length l) - len - start + 1))") auto

function scanLengths :: "jsstring \<Rightarrow> jsstring \<Rightarrow> int \<Rightarrow> jsstring" where
  "scanLengths originalLine normalizedSearchText len =
     (if len \<ge> int (length normalizedSearchText) - 5
      then case scanStarts originalLine normalizedSearchText len 0 of
             Some candidate \<Rightarrow> candidate
           | None \<Rightarrow> scanLengths originalLine normalizedSearchText (len - 1)
      else normalizedSearchText)"
  by pat_completeness auto
termination
  by (relation "measure (\<lambda>(l, t, len). nat (len - (int (length t) - 5) + 1))") auto

text \<open>
  \<^verbatim>\<open>/(['"`])([^'"]*)\1/\<close>: the back-reference makes the closing mark the opening one,
  so the pattern is the alternative of the three marks; the second group is the match
  without its two ends.
\<close>

definition quotedTextPattern :: rx where
  "quotedTextPattern =
     Alt (seqs [chr 39, Star (noneOf [39, 34]), chr 39])
       (Alt (seqs [chr 34, Star (noneOf [39, 34]), chr 34])
            (seqs [chr 96, Star (noneOf [39, 34]), chr 96]))"

definition extractOriginalTextFromLine :: "jsstring \<Rightarrow> jsstring \<Rightarrow> jsstring \<Rightarrow> jsstring" where
  "extractOriginalTextFromLine originalLine normalizedSearchText normalizedLine =
     (if indexOf normalizedLine normalizedSearchText = None then normalizedSearchText
      else
        let textWithEntities =
              (if str_includes originalLine (js ''&'')
               then findTextWithHtmlEntities originalLine normalizedSearchText else None);
            quotedContent =
              (case rx_exec quotedTextPattern originalLine of
                 None \<Rightarrow> None
               | Some (pre, m, rest) \<Rightarrow> Some (butlast (tl m)));
            searchLength = int (length normalizedSearchText)
        in case textWithEntities of
             Some (c # cs) \<Rightarrow>
               (let trimmed = trim (c # cs)
                in if cleanSearchText trimmed = normalizedSearchText then trimmed else c # cs)
           | _ \<Rightarrow>
               (if quotedContent \<noteq> None
                   \<and> cleanSearchText (the quotedContent) = normalizedSearchText
                then the quotedContent
                else scanLengths originalLine normalizedSearchText
                       (min (int (length originalLine)) (searchLength + 10))))"

section \<open>Source patcher: the replacement strategies\<close>

definition replaceJsonValue :: "jsstring \<Rightarrow> jsstring \<Rightarrow> jsstring \<Rightarrow> jsstring" where
  "replaceJsonValue line oldText newText =
     (let cleanOldText = trim oldText;
          cleanOldText =
            (if startsWith cleanOldText (js '' '' @ dq) \<and> endsWith cleanOldText dq
             then slice cleanOldText 2 (-1)
             else if startsWith cleanOldText dq \<and> endsWith cleanOldText dq
             then slice cleanOldText 1 (-1)
             else cleanOldText);
          quotedStringPattern =
            seqs [chr 34, Star (noneOf [34, 92]),
                  Star (seqs [chr 92, anyChar, Star (noneOf [34, 92])]), chr 34]
      in rx_replaceAll quotedStringPattern
           (\<lambda>m pre post.
              let content = slice m 1 (-1)
              in if content = cleanOldText \<or> str_includes content cleanOldText
                 then dq @ replaceAll cleanOldText newText content @ dq
                 else m)
           line)"

definition preserveEntityQuotesSimple :: "jsstring \<Rightarrow> jsstring \<Rightarrow> jsstring \<Rightarrow> jsstring" where
  "preserveEntityQuotesSimple line oldText newText =
     (let cleanOldText =
            (if startsWith oldText (js ''&quot;'') \<and> endsWith oldText (js ''&quot;'')
             then slice oldText 6 (-6) else oldText);
          quotePattern = seqs [lit (js ''&quot;''), Lazy (noneOf [38]), lit (js ''&quot;'')]
      in rx_replaceAll quotePattern
           (\<lambda>m pre post.
              let openQuote = take 6 m; content = slice m 6 (-6); closeQuote = slice m (-6) (int (length m))
              in if str_includes content cleanOldText \<or> content = cleanOldText \<or> m = oldText
                 then openQuote @ newText @ closeQuote
                 else m)
           line)"

text \<open>
  The third strategy of \<^verbatim>\<open>replaceTextContent\<close> looks at the texts between \<^verbatim>\<open>>\<close> and
  \<^verbatim>\<open><\<close>, before the first \<^verbatim>\<open><\<close> and after the last \<^verbatim>\<open>>\<close> of the line. For each that
  contains the old text, it replaces, in the result so far, the first occurrence of that
  text (\<^verbatim>\<open>result.replace(textContent, ...)\<close> with a string pattern) by its rewritten form.
\<close>

definition textContentRegex :: rx where
  "textContentRegex = seqs [chr 62, Star (noneOf [60]), chr 60]"

definition beforeFirstTagRegex :: rx where
  "beforeFirstTagRegex = seqs [Bos, Star (noneOf [60]), chr 60]"

definition afterLastTagRegex :: rx where
  "afterLastTagRegex = seqs [chr 62, Star (noneOf [60]), Eos]"

definition rewriteSegment :: "jsstring \<Rightarrow> jsstring \<Rightarrow> jsstring \<Rightarrow> jsstring \<Rightarrow> jsstring" where
  "rewriteSegment oldText newText result textContent =
     (if str_includes textContent oldText
      then replaceFirst textContent (replaceAll oldText newText textContent) result
      else result)"

definition replaceTextContent :: "jsstring \<Rightarrow> jsstring \<Rightarrow> jsstring \<Rightarrow> jsstring" where
  "replaceTextContent line oldText newText =
     (if str_includes line (js '':'') \<and> (str_includes line dq \<or> str_includes line sq)
      then replaceJsonValue line oldText newText
      else if str_includes line (js ''&quot;'')
      then preserveEntityQuotesSimple line oldText newText
      else if str_includes line (js ''<'') \<and> str_includes line (js ''>'')
      then
        let result = line;
            result = foldl (\<lambda>result m. rewriteSegment oldText newText result (slice m 1 (-1)))
                       result (rx_matchAll textContentRegex line);
            result = (case rx_exec beforeFirstTagRegex line of
                        None \<Rightarrow> result
                      | Some (pre, m, rest) \<Rightarrow>
                          rewriteSegment oldText newText result (slice m 0 (-1)));
            result = (case rx_exec afterLastTagRegex line of
                        None \<Rightarrow> result
                      | Some (pre, m, rest) \<Rightarrow>
                          rewriteSegment oldText newText result (slice m 1 (int (length m))))
        in result
      else replaceAll oldText newText line)"

section \<open>Data model\<close>

text \<open>
  The interfaces of the source. An optional field is an \<open>option\<close>; the optional flags of
  \<^verbatim>\<open>FileMatch\<close> are only tested for truth, so a missing flag is \<open>False\<close>. The fields
  \<^verbatim>\<open>projectId\<close>, \<^verbatim>\<open>heroPageElementId\<close> and \<^verbatim>\<open>componentContext\<close> of \<^verbatim>\<open>EditContext\<close>, which
  the engine never reads, are left out.
\<close>

record ElementContext =
  elementTag :: jsstring
  elementClasses :: "jsstring list option"
  elementId :: "jsstring option"
  cssSelector :: jsstring
  elementPath :: jsstring

record SurroundingContext =
  parentText :: "jsstring option"
  siblingsBefore :: "jsstring list option"
  siblingsAfter :: "jsstring list option"
  nearbyUniqueText :: "jsstring option"

record PageContext =
  pageUrl :: jsstring
  pageTitle :: "jsstring option"
  fullUrl :: "jsstring option"

record EditContext =
  originalText :: jsstring
  newText :: jsstring
  elementContext :: ElementContext
  surroundingContext :: "SurroundingContext option"
  pageContext :: PageContext

record FileMatch =
  filePath :: jsstring
  lineNumber :: nat
  originalLine :: jsstring
  updatedLine :: jsstring
  matchedText :: jsstring
  matchedVariation :: "jsstring option"
  contextBefore :: "jsstring list"
  contextAfter :: "jsstring list"
  isAttributeMatch :: bool
  isTextContentMatch :: bool
  isExactMatch :: bool

record ScoredMatch = FileMatch +
  score :: rat
  confidence :: rat
  reasons :: "jsstring list"

text \<open>The error messages of the engine, and what a caught exception reports.\<close>

datatype failure =
    NoMatchesFound
  | LowConfidenceMatch
  | LineNumberExceedsFileLength nat
  | ReadFileError jsstring
  | TypeError

record ProcessResult =
  success :: bool
  resultConfidence :: rat
  matchedFilePath :: "jsstring option"
  resultLineNumber :: "nat option"
  matchContext :: "jsstring option"
  alternativeMatches :: "ScoredMatch list option"
  hasConflicts :: bool
  errorMessage :: "failure option"

text \<open>
  The files of the project: a file is named by its path relative to the project root, as
  \<^verbatim>\<open>path.relative(projectRoot, ...)\<close> writes it into a match and
  \<^verbatim>\<open>path.join(projectRoot, ...)\<close> reads it back; \<open>None\<close> is a file that cannot be read.
  Writing a file that could be read succeeds.
\<close>

type_synonym filesystem = "jsstring \<rightharpoonup> jsstring"

definition getFileContent :: "filesystem \<Rightarrow> jsstring \<Rightarrow> jsstring" where
  "getFileContent fs path = (case fs path of Some content \<Rightarrow> content | None \<Rightarrow> [])"

section \<open>Corpus scanner\<close>

text \<open>
  The body of the innermost loop of \<^verbatim>\<open>findTextInSourceFiles\<close>: the match pushed for line
  \<open>i\<close> (from 0) of a file and a variation for which \<open>hasExactTextMatch\<close> holds.
\<close>

definition candidateMatch ::
  "jslib \<Rightarrow> jsstring \<Rightarrow> jsstring list \<Rightarrow> jsstring \<Rightarrow> jsstring list \<Rightarrow> nat \<Rightarrow> jsstring \<Rightarrow> FileMatch" where
  "candidateMatch L path lines cleanedText searchVariations i variation =
     (let line = lines ! i;
          normalizedLine = cleanSearchText line;
          originalTextInFile = extractOriginalTextFromLine line variation normalizedLine
      in \<lparr> filePath = path,
           lineNumber = i + 1,
           originalLine = line,
           updatedLine =
             replaceFirst originalTextInFile
               (case searchVariations of [] \<Rightarrow> js ''undefined'' | v # _ \<Rightarrow> v) line,
           matchedText = originalTextInFile,
           matchedVariation = (if variation \<noteq> cleanedText then Some variation else None),
           contextBefore = drop (i - 3) (take i lines),
           contextAfter = take 3 (drop (i + 1) lines),
           isAttributeMatch = isAttributeMatch_line L normalizedLine variation,
           isTextContentMatch = isTextContentMatch_line L normalizedLine variation,
           isExactMatch = hasExactTextMatch line variation \<rparr>)"

definition scanFile ::
  "jslib \<Rightarrow> jsstring \<Rightarrow> jsstring \<Rightarrow> jsstring \<Rightarrow> jsstring list \<Rightarrow> FileMatch list" where
  "scanFile L path content cleanedText searchVariations =
     (let lines = splitOn 10 content
      in concat (map (\<lambda>i.
           concat (map (\<lambda>variation.
             if hasExactTextMatch (lines ! i) variation
             then [candidateMatch L path lines cleanedText searchVariations i variation]
             else [])
           searchVariations))
         [0..<length lines]))"

text \<open>
  \<open>allFiles\<close> is the list of paths that the \<^verbatim>\<open>glob\<close> calls return, in the order of the
  two loops over the search directories and the patterns; a file that several patterns
  or both directories find is in the list several times.
\<close>

definition findTextInSourceFiles ::
  "jslib \<Rightarrow> jsstring list \<Rightarrow> filesystem \<Rightarrow> jsstring \<Rightarrow> FileMatch list" where
  "findTextInSourceFiles L allFiles fs originalText' =
     (let cleanedText = cleanSearchText originalText';
          searchVariations = extractDynamicPart cleanedText
      in concat (map (\<lambda>path.
           case fs path of
             None \<Rightarrow> []
           | Some content \<Rightarrow> scanFile L path content cleanedText searchVariations)
         allFiles))"

section \<open>Page-context filter\<close>

definition relevanceScore :: "jslib \<Rightarrow> jsstring list \<Rightarrow> jsstring \<Rightarrow> FileMatch \<Rightarrow> nat" where
  "relevanceScore L urlParts lastPart match =
     (let path = toLowerCase L (filePath match)
      in (if str_includes path (lastPart @ js ''/page.'') then 100 else 0)
       + (if list_ex (\<lambda>part. str_includes path (toLowerCase L part)) urlParts then 50 else 0)
       + (if str_includes path (js ''/page.'') \<or> str_includes path (js ''page/'') then 30 else 0)
       + (if str_includes path (js ''/components/'') then 20 else 0)
       + (if str_includes path (js ''/layout.'') then 10 else 0)
       + (if str_includes path (js ''nav'') \<or> str_includes path (js ''header'')
              \<or> str_includes path (js ''footer'') then 5 else 0))"

text \<open>
  \<^verbatim>\<open>Array.prototype.sort\<close> is stable, and so is \<open>sort_key\<close>; the comparison
  \<^verbatim>\<open>b.relevanceScore - a.relevanceScore\<close> orders by descending score.
\<close>

definition filterByPageContext :: "jslib \<Rightarrow> FileMatch list \<Rightarrow> PageContext \<Rightarrow> FileMatch list" where
  "filterByPageContext L matches pc =
     (if pageUrl pc = [] then matches
      else
        let urlParts = filter (\<lambda>part. part \<noteq> []) (splitOn 47 (pageUrl pc));
            lastPart = (if urlParts = [] then js ''index'' else last urlParts)
        in take 10 (sort_key (\<lambda>match. - int (relevanceScore L urlParts lastPart match)) matches))"

section \<open>Context validator\<close>

definition parentTextOf :: "EditContext \<Rightarrow> jsstring option" where
  "parentTextOf ctx =
     (case surroundingContext ctx of
        None \<Rightarrow> None
      | Some sc \<Rightarrow> (case parentText sc of None \<Rightarrow> None | Some p \<Rightarrow> if p = [] then None else Some p))"

definition hasMinimalContext :: "EditContext \<Rightarrow> bool" where
  "hasMinimalContext ctx =
     (case parentTextOf ctx of
        None \<Rightarrow> False
      | Some p \<Rightarrow> trim (cleanSearchText p) = trim (cleanSearchText (originalText ctx)))"

definition hasElementId :: "EditContext \<Rightarrow> bool" where
  "hasElementId ctx = (case elementId (elementContext ctx) of None \<Rightarrow> False | Some i \<Rightarrow> i \<noteq> [])"

definition hasStrongElementContext :: "EditContext \<Rightarrow> bool" where
  "hasStrongElementContext ctx =
     (hasElementId ctx
      \<or> (case elementClasses (elementContext ctx) of None \<Rightarrow> 0 | Some cs \<Rightarrow> length cs) \<ge> 3)"

definition minRequiredScore :: "EditContext \<Rightarrow> bool \<Rightarrow> rat" where
  "minRequiredScore ctx isUniqueText =
     (if hasElementId ctx \<or> isUniqueText then 1
      else if hasStrongElementContext ctx then 1
      else if hasMinimalContext ctx then 3
      else if length (trim (originalText ctx)) < 10 then 2 else 1)"

text \<open>
  The text fragments of the following siblings that are checked against the file:
  \<^verbatim>\<open>sibling.split(':')[1]?.split('[')[0]?.trim()\<close> of a sibling that contains a colon,
  when it is longer than 15.
\<close>

definition siblingTextParts :: "EditContext \<Rightarrow> jsstring list" where
  "siblingTextParts ctx =
     (case surroundingContext ctx of
        None \<Rightarrow> []
      | Some sc \<Rightarrow>
          (case siblingsAfter sc of
             None \<Rightarrow> []
           | Some siblings \<Rightarrow>
               concat (map (\<lambda>sibling.
                 if str_includes sibling (js '':'')
                 then (case splitOn 58 sibling of
                         _ # second # _ \<Rightarrow>
                           (case splitOn 91 second of
                              first # _ \<Rightarrow> (if length (trim first) > 15 then [trim first] else [])
                            | [] \<Rightarrow> [])
                       | _ \<Rightarrow> [])
                 else []) siblings)))"

definition selectorPartRegex :: rx where
  "selectorPartRegex =
     Alt (seqs [chr 35, rx_plus (oneOf (wordChars @ js ''-''))])
         (seqs [chr 46, rx_plus (oneOf (wordChars @ js ''-''))])"

text \<open>The two tests inside the loops over the sibling texts and the selector parts.\<close>

definition siblingFound :: "jsstring \<Rightarrow> jsstring \<Rightarrow> bool" where
  "siblingFound normalizedFileContent textPart =
     str_includes normalizedFileContent (cleanSearchText textPart)"

definition selectorPartFound :: "jsstring \<Rightarrow> jsstring \<Rightarrow> bool" where
  "selectorPartFound fileContent part =
     (let cleanPart = substring part 1 (int (length part))
      in length cleanPart > 3 \<and> str_includes fileContent cleanPart)"

text \<open>
  The score that \<^verbatim>\<open>validateExactContext\<close> accumulates; \<open>None\<close> is one of its two early
  rejections. The threshold is \<open>minRequiredScore\<close>. The reason string, which is only
  logged, is not modelled.
\<close>

definition validationScore :: "jslib \<Rightarrow> filesystem \<Rightarrow> 'a FileMatch_scheme \<Rightarrow> EditContext \<Rightarrow> bool \<Rightarrow> rat option" where
  "validationScore L fs match ctx isUniqueText =
     (let fileContent = getFileContent fs (filePath match);
          originalTextNormalized = cleanSearchText (originalText ctx);
          normalizedFileContent = cleanSearchText fileContent;
          parentScore =
            (case parentTextOf ctx of
               None \<Rightarrow> Some 0
             | Some p \<Rightarrow>
                 let parentTextNormalized = cleanSearchText p
                 in if \<not> str_includes parentTextNormalized originalTextNormalized then None
                    else if \<not> str_includes normalizedFileContent originalTextNormalized then None
                    else if trim parentTextNormalized = trim originalTextNormalized then Some 1
                    else Some 2);
          textParts = siblingTextParts ctx;
          totalSiblings = length textParts;
          siblingMatches = length (filter (siblingFound normalizedFileContent) textParts);
          siblingScore =
            (if totalSiblings > 0
             then (if (of_nat siblingMatches :: rat) / of_nat totalSiblings \<ge> 1 / 2
                   then of_nat siblingMatches * 2 else - 1)
             else 0);
          url = pageUrl (pageContext ctx);
          fileName = toLowerCase L (filePath match);
          homeScore =
            (if url \<noteq> [] \<and> (url = js ''/'' \<or> url = [])
                \<and> (str_includes fileName (js ''testimonials'') \<or> str_includes fileName (js ''obstacles'')
                     \<or> str_includes fileName (js ''bausteine'') \<or> str_includes fileName (js ''hero'')
                     \<or> \<not> str_includes fileName (js ''(light-bg)''))
             then 1 else 0);
          pagePath = rx_replace (seqs [chr 47, Eos]) [] (rx_replace (seqs [Bos, chr 47]) [] url);
          pageScore =
            (if url \<noteq> [] \<and> str_includes url (js ''/'') \<and> url \<noteq> js ''/''
                \<and> str_includes fileName pagePath
             then 2 else 0);
          selector = cssSelector (elementContext ctx);
          selectorParts = rx_matchAll selectorPartRegex selector;
          selectorMatches = length (filter (selectorPartFound fileContent) selectorParts);
          selectorScore = (if selectorMatches > 0 then of_nat selectorMatches * (1 / 2) else 0);
          minimalScore =
            (if hasMinimalContext ctx then (if length selector > 20 then 1 else - 1) else 0);
          uniqueScore = (if isUniqueText then 3 else 0);
          idScore = (if hasElementId ctx then 2 else 0)
      in case parentScore of
           None \<Rightarrow> None
         | Some p \<Rightarrow>
             Some (p + siblingScore + homeScore + pageScore + selectorScore + minimalScore
                     + uniqueScore + idScore))"

definition validateExactContext :: "jslib \<Rightarrow> filesystem \<Rightarrow> 'a FileMatch_scheme \<Rightarrow> EditContext \<Rightarrow> bool \<Rightarrow> bool" where
  "validateExactContext L fs match ctx isUniqueText =
     (case validationScore L fs match ctx isUniqueText of
        None \<Rightarrow> False
      | Some validationScore' \<Rightarrow> validationScore' \<ge> minRequiredScore ctx isUniqueText)"

section \<open>Scoring and ranking\<close>

text \<open>The test of the loop of \<^verbatim>\<open>scoreMatchesWithContext\<close>: \<^verbatim>\<open>validation.isValid\<close>.\<close>

definition passesValidation :: "jslib \<Rightarrow> filesystem \<Rightarrow> EditContext \<Rightarrow> bool \<Rightarrow> FileMatch \<Rightarrow> bool" where
  "passesValidation L fs ctx isUniqueText match = validateExactContext L fs match ctx isUniqueText"

text \<open>The body of the loop of \<^verbatim>\<open>scoreMatchesWithContext\<close> for a match that passed validation.\<close>

definition baseScore :: "EditContext \<Rightarrow> FileMatch \<Rightarrow> rat \<times> jsstring list" where
  "baseScore ctx match =
     (let score = 3;
          reasons = [js ''Text match found'', js ''Context validation passed''];
          hasDom = (hasElementId ctx \<or> elementTag (elementContext ctx) \<noteq> []);
          isComponent = (endsWith (filePath match) (js ''.tsx'') \<or> endsWith (filePath match) (js ''.jsx''));
          isMapping = (str_includes (filePath match) (js ''.map.json'')
                       \<or> str_includes (filePath match) (js ''hero-page-element-id''));
          (score, reasons) =
            (if hasDom \<and> isComponent
             then (score + 2, reasons @ [js ''Component file with DOM context (high priority)''])
             else if hasDom \<and> isMapping
             then (score - 1, reasons @ [js ''Mapping file (lower priority when DOM context available)''])
             else (score, reasons));
          (score, reasons) =
            (if str_includes (filePath match) (js ''/components/'')
                \<or> str_includes (filePath match) [92, 99, 111, 109, 112, 111, 110, 101, 110, 116, 115, 92]
             then (score + 1, reasons @ [js ''Component file''])
             else (score, reasons));
          (score, reasons) =
            (if isExactMatch match
             then (score + 3, reasons @ [js ''Exact text match (high priority)''])
             else (score - 1, reasons @ [js ''Non-exact match (penalty applied)'']));
          (score, reasons) =
            (if isTextContentMatch match \<and> \<not> isAttributeMatch match
             then (score + 1, reasons @ [js ''Text content match''])
             else (score, reasons))
      in (score, reasons))"

definition scoredMatch :: "EditContext \<Rightarrow> FileMatch \<Rightarrow> ScoredMatch" where
  "scoredMatch ctx match =
     (case baseScore ctx match of
        (score', reasons') \<Rightarrow>
          FileMatch.extend match
            (ScoredMatch.fields score' (min (score' / 4) 1) reasons'))"

definition scoreMatchesWithContext ::
  "jslib \<Rightarrow> filesystem \<Rightarrow> FileMatch list \<Rightarrow> EditContext \<Rightarrow> ScoredMatch list" where
  "scoreMatchesWithContext L fs matches ctx =
     (let isUniqueText = (length matches = 1);
          validMatches =
            map (scoredMatch ctx) (filter (passesValidation L fs ctx isUniqueText) matches)
      in sort_key (\<lambda>m. - confidence m) validMatches)"

definition hasContentAttributeKey :: "jslib \<Rightarrow> jsstring \<Rightarrow> bool" where
  "hasContentAttributeKey L line =
     list_ex (\<lambda>attr. str_includes (toLowerCase L line) (toLowerCase L attr)) contentAttributes"

definition findBestMatch :: "jslib \<Rightarrow> ScoredMatch list \<Rightarrow> ScoredMatch option" where
  "findBestMatch L scoredMatches =
     (case scoredMatches of
        [] \<Rightarrow> None
      | bestMatch # _ \<Rightarrow>
          (case filter (\<lambda>m. isTextContentMatch m \<and> \<not> isAttributeMatch m) scoredMatches of
             m # _ \<Rightarrow> Some m
           | [] \<Rightarrow>
               (case filter (\<lambda>m. if \<not> isTextContentMatch m \<or> \<not> isAttributeMatch m then False
                                  else hasContentAttributeKey L (originalLine m)) scoredMatches of
                  m # _ \<Rightarrow> Some m
                | [] \<Rightarrow>
                    (case filter (\<lambda>m. isTextContentMatch m \<and> isAttributeMatch m) scoredMatches of
                       m # _ \<Rightarrow> Some m
                     | [] \<Rightarrow>
                         (case filter (\<lambda>m. confidence m > 1 / 2) scoredMatches of
                            m # _ # _ \<Rightarrow> Some m
                          | _ \<Rightarrow> Some bestMatch)))))"

section \<open>Source patcher and the whole edit\<close>

text \<open>
  \<^verbatim>\<open>updateSourceFile\<close> returns \<open>None\<close> for \<^verbatim>\<open>{ success: true }\<close> and the message
  otherwise, together with the files after the call. With line number 0 the source reads
  \<^verbatim>\<open>lines[-1]\<close>, which is \<^verbatim>\<open>undefined\<close>, and the call of \<^verbatim>\<open>includes\<close> on it throws.
\<close>

definition updateSourceFile ::
  "filesystem \<Rightarrow> 'a FileMatch_scheme \<Rightarrow> EditContext \<Rightarrow> failure option \<times> filesystem" where
  "updateSourceFile fs match ctx =
     (case fs (filePath match) of
        None \<Rightarrow> (Some (ReadFileError (filePath match)), fs)
      | Some content \<Rightarrow>
          let lines = splitOn 10 content
          in if lineNumber match \<le> length lines
             then
               (if lineNumber match = 0 then (Some TypeError, fs)
                else
                  let originalLine' = lines ! (lineNumber match - 1);
                      updatedLine' = replaceTextContent originalLine' (matchedText match) (newText ctx);
                      updatedLine' =
                        (if updatedLine' = originalLine'
                         then replaceFirst (matchedText match) (newText ctx) originalLine'
                         else updatedLine');
                      lines = lines[lineNumber match - 1 := updatedLine'];
                      updatedContent = joinWith 10 lines
                  in (None, fs(filePath match \<mapsto> updatedContent)))
             else (Some (LineNumberExceedsFileLength (lineNumber match)), fs))"

definition failureResult :: "rat \<Rightarrow> bool \<Rightarrow> ScoredMatch list option \<Rightarrow> failure \<Rightarrow> ProcessResult" where
  "failureResult c conflicts alternatives message =
     \<lparr> success = False, resultConfidence = c, matchedFilePath = None, resultLineNumber = None,
       matchContext = None, alternativeMatches = alternatives, hasConflicts = conflicts,
       errorMessage = Some message \<rparr>"

definition processTextEdit ::
  "jslib \<Rightarrow> jsstring list \<Rightarrow> filesystem \<Rightarrow> EditContext \<Rightarrow> ProcessResult \<times> filesystem" where
  "processTextEdit L allFiles fs editContext =
     (let allMatches = findTextInSourceFiles L allFiles fs (originalText editContext)
      in if allMatches = [] then (failureResult 0 False None NoMatchesFound, fs)
         else
           let pageMatches = filterByPageContext L allMatches (pageContext editContext);
               scoredMatches = scoreMatchesWithContext L fs pageMatches editContext
           in case findBestMatch L scoredMatches of
                None \<Rightarrow>
                  (failureResult 0 (length scoredMatches > 1) (Some scoredMatches) NoMatchesFound, fs)
              | Some bestMatch \<Rightarrow>
                  if confidence bestMatch < 1 / 2
                  then (failureResult (confidence bestMatch) (length scoredMatches > 1)
                          (Some scoredMatches) LowConfidenceMatch, fs)
                  else
                    (case updateSourceFile fs bestMatch editContext of
                       (None, fs') \<Rightarrow>
                         (\<lparr> success = True, resultConfidence = confidence bestMatch,
                             matchedFilePath = Some (filePath bestMatch),
                             resultLineNumber = Some (lineNumber bestMatch),
                             matchContext = Some (originalLine bestMatch),
                             alternativeMatches = None, hasConflicts = False,
                             errorMessage = None \<rparr>, fs')
                     | (Some message, fs') \<Rightarrow>
                         (failureResult (confidence bestMatch) False None message, fs')))"

section \<open>Example inputs\<close>

text \<open>
  A request that changes \<^verbatim>\<open>Hi\<close> to \<^verbatim>\<open>Yo\<close>, a project of one file of three lines, and
  the match of the second line.
\<close>

definition exampleContext :: EditContext where
  "exampleContext =
     \<lparr> originalText = js ''Hi'', newText = js ''Yo'',
       elementContext = \<lparr> elementTag = js ''p'', elementClasses = None, elementId = None,
                          cssSelector = js ''p'', elementPath = js ''p'' \<rparr>,
       surroundingContext = None,
       pageContext = \<lparr> pageUrl = js ''/'', pageTitle = None, fullUrl = None \<rparr> \<rparr>"

definition exampleMatch :: FileMatch where
  "exampleMatch =
     \<lparr> filePath = js ''a.html'', lineNumber = 2, originalLine = js ''<p>Hi</p>'',
       updatedLine = js ''<p>Hi</p>'', matchedText = js ''Hi'', matchedVariation = None,
       contextBefore = [js ''<div>''], contextAfter = [js ''</div>''],
       isAttributeMatch = False, isTextContentMatch = True, isExactMatch = True \<rparr>"

definition exampleFiles :: filesystem where
  "exampleFiles = [js ''a.html'' \<mapsto> js ''<div>'' @ [10] @ js ''<p>Hi</p>'' @ [10] @ js ''</div>'']"

text \<open>The same request with a new text of two lines, as a text area gives it.\<close>

definition breakContext :: EditContext where
  "breakContext = exampleContext\<lparr> newText := js ''Y'' @ [10] @ js ''o'' \<rparr>"

text \<open>
  A second project: the same line, an attribute value, in two files. The scan finds the
  file under \<^verbatim>\<open>src/lib\<close> first; the request carries an element id.
\<close>

definition tieContext :: EditContext where
  "tieContext =
     \<lparr> originalText = js ''Hi'', newText = js ''Yo'',
       elementContext = \<lparr> elementTag = js ''div'', elementClasses = None,
                          elementId = Some (js ''main''), cssSelector = js ''div'',
                          elementPath = js ''div'' \<rparr>,
       surroundingContext = None,
       pageContext = \<lparr> pageUrl = js ''/'', pageTitle = None, fullUrl = None \<rparr> \<rparr>"

definition tieLine :: jsstring where
  "tieLine = js ''<div class='' @ dq @ js ''Hi'' @ dq @ js ''>''"

definition tieFiles :: "jsstring list" where
  "tieFiles = [js ''src/lib/x.html'', js ''src/components/y.html'']"

definition tieDisk :: filesystem where
  "tieDisk = [js ''src/lib/x.html'' \<mapsto> tieLine, js ''src/components/y.html'' \<mapsto> tieLine]"

definition tieMatch :: "jsstring \<Rightarrow> FileMatch" where
  "tieMatch path =
     \<lparr> filePath = path, lineNumber = 1, originalLine = tieLine, updatedLine = tieLine,
       matchedText = js ''Hi'', matchedVariation = None, contextBefore = [], contextAfter = [],
       isAttributeMatch = True, isTextContentMatch = False, isExactMatch = True \<rparr>"

definition tieFirst :: FileMatch where
  "tieFirst = tieMatch (js ''src/lib/x.html'')"

definition tieSecond :: FileMatch where
  "tieSecond = tieMatch (js ''src/components/y.html'')"

text \<open>
  The project has a directory \<^verbatim>\<open>src\<close>, so the constructor takes it as the source
  directory and \<^verbatim>\<open>findTextInSourceFiles\<close> runs its patterns there and in the project
  root: each file under \<^verbatim>\<open>src\<close> is found twice.
\<close>

definition tieFilesTwice :: "jsstring list" where
  "tieFilesTwice = tieFiles @ tieFiles"

text \<open>
  A third project: the line once, in one file, and the request of the second project
  without the element id. The file listed once, and listed twice as the two search
  directories find it.
\<close>

definition onceContext :: EditContext where
  "onceContext =
     tieContext\<lparr> elementContext := (elementContext tieContext)\<lparr> elementId := None \<rparr> \<rparr>"

definition onceDisk :: filesystem where
  "onceDisk = [js ''src/lib/x.html'' \<mapsto> tieLine]"

definition onceFiles :: "jsstring list" where
  "onceFiles = [js ''src/lib/x.html'']"

definition twiceFiles :: "jsstring list" where
  "twiceFiles = [js ''src/lib/x.html'', js ''src/lib/x.html'']"

text \<open>
  The first request with a parent text that says no more than the text itself, and a
  project of one file with two quoted lines.
\<close>

definition minimalContext :: EditContext where
  "minimalContext =
     exampleContext\<lparr> surroundingContext :=
       Some \<lparr> parentText = Some (js ''Hi''), siblingsBefore = None, siblingsAfter = None,
              nearbyUniqueText = None \<rparr> \<rparr>"

definition quotedFiles :: filesystem where
  "quotedFiles = [js ''a.json'' \<mapsto> dq @ js ''Hi'' @ dq @ [10] @ dq @ js ''Hi there'' @ dq]"

text \<open>A line in which the text of an element is also the value of an attribute.\<close>

definition slipLine :: jsstring where
  "slipLine = js ''<p id='' @ dq @ js ''Home'' @ dq @ js ''>Home</p>''"

section \<open>Notions used in the statements\<close>

text \<open>
  A text in which white space occurs only as single spaces; \<open>collapseSpaces\<close> produces
  such a text and leaves such a text as it is, and every part of such a text is one.
\<close>

fun okSpaces :: "jsstring \<Rightarrow> bool" where
  "okSpaces [] = True"
| "okSpaces [c] = (isSpace c \<longrightarrow> c = 32)"
| "okSpaces (c # d # r) = ((isSpace c \<longrightarrow> c = 32 \<and> \<not> isSpace d) \<and> okSpaces (d # r))"

definition noSpecial :: "jsstring \<Rightarrow> bool" where
  "noSpecial t = (\<forall>c \<in> set t. c \<notin> {160, 8230, 8220, 8221, 8216, 8217, 8222, 8218})"

text \<open>
  The buckets of the ranker, in the order of their precedence: text content outside an
  attribute; attribute and text content on a line with a content-bearing attribute key;
  attribute and text content; and, when all three are empty, every match.
\<close>

definition pureTextMatch :: "ScoredMatch \<Rightarrow> bool" where
  "pureTextMatch m = (isTextContentMatch m \<and> \<not> isAttributeMatch m)"

definition contentAttributeMatch :: "jslib \<Rightarrow> ScoredMatch \<Rightarrow> bool" where
  "contentAttributeMatch L m =
     (isTextContentMatch m \<and> isAttributeMatch m \<and> hasContentAttributeKey L (originalLine m))"

definition mixedMatch :: "ScoredMatch \<Rightarrow> bool" where
  "mixedMatch m = (isTextContentMatch m \<and> isAttributeMatch m)"

definition selectionBucket :: "jslib \<Rightarrow> ScoredMatch list \<Rightarrow> ScoredMatch \<Rightarrow> bool" where
  "selectionBucket L ms =
     (if list_ex pureTextMatch ms then pureTextMatch
      else if list_ex (contentAttributeMatch L) ms then contentAttributeMatch L
      else if list_ex mixedMatch ms then mixedMatch
      else (\<lambda>m. True))"

text \<open>
  A candidate is globally unique, in the words of the specification, when it is the only
  line in the whole corpus that matched any variation: the lines of the corpus that
  match are the file and line number of the candidates of the scan, each taken once.
\<close>

definition matchingLines :: "jslib \<Rightarrow> jsstring list \<Rightarrow> filesystem \<Rightarrow> jsstring \<Rightarrow> (jsstring \<times> nat) list" where
  "matchingLines L allFiles fs t =
     remdups (map (\<lambda>m. (filePath m, lineNumber m)) (findTextInSourceFiles L allFiles fs t))"

definition globallyUnique :: "jslib \<Rightarrow> jsstring list \<Rightarrow> filesystem \<Rightarrow> jsstring \<Rightarrow> FileMatch \<Rightarrow> bool" where
  "globallyUnique L allFiles fs t m = (matchingLines L allFiles fs t = [(filePath m, lineNumber m)])"

text \<open>The page relevance by which \<open>filterByPageContext\<close> orders the matches.\<close>

definition pageRelevance :: "jslib \<Rightarrow> PageContext \<Rightarrow> FileMatch \<Rightarrow> nat" where
  "pageRelevance L pc =
     (let urlParts = filter (\<lambda>part. part \<noteq> []) (splitOn 47 (pageUrl pc));
          lastPart = (if urlParts = [] then js ''index'' else last urlParts)
      in relevanceScore L urlParts lastPart)"

text \<open>
  The variation for which a match was pushed (\<^verbatim>\<open>matchedVariation\<close> is left undefined for
  the cleaned text itself), and: the scan has pushed a match for line \<open>i\<close> (from 0) of
  the file at \<open>path\<close> and the variation.
\<close>

definition variationOf :: "jsstring \<Rightarrow> FileMatch \<Rightarrow> jsstring" where
  "variationOf cleanedText m = (case matchedVariation m of None \<Rightarrow> cleanedText | Some v \<Rightarrow> v)"

definition emitted :: "FileMatch list \<Rightarrow> jsstring \<Rightarrow> jsstring \<Rightarrow> nat \<Rightarrow> jsstring \<Rightarrow> bool" where
  "emitted matches cleanedText path i variation =
     list_ex (\<lambda>m. filePath m = path \<and> lineNumber m = Suc i \<and> variationOf cleanedText m = variation)
       matches"

text \<open>
  The condition under which \<open>replaceTextContent\<close> takes its third strategy, and the texts
  that this strategy looks at, in the order in which it does.
\<close>

definition usesTagStrategy :: "jsstring \<Rightarrow> bool" where
  "usesTagStrategy line =
     (\<not> (str_includes line (js '':'') \<and> (str_includes line dq \<or> str_includes line sq))
      \<and> \<not> str_includes line (js ''&quot;'')
      \<and> str_includes line (js ''<'') \<and> str_includes line (js ''>''))"

definition tagSegments :: "jsstring \<Rightarrow> jsstring list" where
  "tagSegments line =
     map (\<lambda>m. slice m 1 (-1)) (rx_matchAll textContentRegex line)
     @ (case rx_exec beforeFirstTagRegex line of
          None \<Rightarrow> [] | Some (pre, m, rest) \<Rightarrow> [slice m 0 (-1)])
     @ (case rx_exec afterLastTagRegex line of
          None \<Rightarrow> [] | Some (pre, m, rest) \<Rightarrow> [slice m 1 (int (length m))])"

section \<open>Properties of the string operations\<close>

declare replaceAllFrom.simps [simp del]
declare rx_replaceAllFrom.simps [simp del]
declare rx_matchAllFrom.simps [simp del]

lemma dropTrailing_append: "\<exists>ys. s = dropTrailing P s @ ys"
  unfolding dropTrailing_def
  by (metis rev_append rev_rev_ident takeWhile_dropWhile_id)

lemma dropWhile_decomp: "\<exists>ys. s = ys @ dropWhile P s"
  by (metis takeWhile_dropWhile_id)

lemma dropWhile_fix: "s = [] \<or> \<not> P (hd s) \<Longrightarrow> dropWhile P s = s"
  by (cases s) auto

lemma dropTrailing_fix: "s = [] \<or> \<not> P (last s) \<Longrightarrow> dropTrailing P s = s"
  unfolding dropTrailing_def by (cases "rev s") (auto simp: last_rev[symmetric] simp del: last_rev)

lemma dropTrailing_last: "dropTrailing P s \<noteq> [] \<Longrightarrow> \<not> P (last (dropTrailing P s))"
  unfolding dropTrailing_def by (simp add: last_rev hd_dropWhile)

lemma dropTrailing_hd: "dropTrailing P s \<noteq> [] \<Longrightarrow> hd (dropTrailing P s) = hd s"
  using dropTrailing_append[of s P] by (metis hd_append2)

lemma trim_ends: "trim s = [] \<or> (\<not> isSpace (hd (trim s)) \<and> \<not> isSpace (last (trim s)))"
  unfolding trim_def
  by (metis dropTrailing_hd dropTrailing_last hd_dropWhile dropTrailing_def dropWhile.simps(1) rev.simps(1))

lemma trim_fix: "s = [] \<or> (\<not> isSpace (hd s) \<and> \<not> isSpace (last s)) \<Longrightarrow> trim s = s"
  unfolding trim_def by (metis dropWhile_fix dropTrailing_fix)

lemma trim_idem: "trim (trim s) = trim s"
  by (rule trim_fix) (rule trim_ends)

lemma replaceAllFrom_id:
  "pat \<noteq> [] \<Longrightarrow> \<not> str_includes s pat \<Longrightarrow> replaceAllFrom pat rep pre s = s"
proof (induction s arbitrary: pre)
  case Nil
  then show ?case by (subst replaceAllFrom.simps) simp
next
  case (Cons c cs)
  then show ?case by (subst replaceAllFrom.simps) simp
qed

lemma in_set_replaceChars:
  "c \<in> set (replaceChars cls rep s) \<longleftrightarrow>
     (c \<in> set s \<and> c \<notin> set cls) \<or> (c \<in> set rep \<and> (\<exists>d \<in> set s. d \<in> set cls))"
  unfolding replaceChars_def by auto

lemma replaceChars_id: "set s \<inter> set cls = {} \<Longrightarrow> replaceChars cls rep s = s"
  unfolding replaceChars_def by (induction s) auto

lemma set_collapseSpaces: "set (collapseSpaces s) \<subseteq> set s \<union> {32}"
proof (induction s rule: collapseSpaces.induct)
  case 1
  show ?case by simp
next
  case (2 c cs)
  have "set (dropWhile isSpace cs) \<subseteq> set cs" by (metis set_dropWhileD subsetI)
  with 2 show ?case by auto
qed

lemma set_dropTrailing: "set (dropTrailing P s) \<subseteq> set s"
  unfolding dropTrailing_def by (metis set_dropWhileD set_rev subsetI)

lemma set_stripFinalDot: "set (stripFinalDot s) \<subseteq> set s"
  unfolding stripFinalDot_def by (auto dest: in_set_butlastD)

lemma set_trim: "set (trim s) \<subseteq> set s"
  unfolding trim_def using set_dropTrailing[of isSpace "dropWhile isSpace s"]
  by (metis set_dropWhileD subsetD subsetI)

lemma splitOn_nonempty: "splitOn d s \<noteq> []"
  by (induction s) (auto split: list.splits)

lemma splitOn_no_sep: "l \<in> set (splitOn d s) \<Longrightarrow> d \<notin> set l"
  by (induction s arbitrary: l) (auto split: list.splits if_splits)

lemma splitOn_append_sep: "d \<notin> set x \<Longrightarrow> splitOn d (x @ d # s) = x # splitOn d s"
  by (induction x) (auto split: list.splits simp: splitOn_nonempty)

lemma splitOn_line: "d \<notin> set x \<Longrightarrow> splitOn d x = [x]"
  by (induction x) (auto split: list.splits)

lemma splitOn_joinWith:
  "ls \<noteq> [] \<Longrightarrow> \<forall>l \<in> set ls. d \<notin> set l \<Longrightarrow> splitOn d (joinWith d ls) = ls"
proof (induction ls rule: joinWith.induct)
  case (1 d)
  then show ?case by simp
next
  case (2 d x)
  then show ?case by (simp add: splitOn_line)
next
  case (3 d x y r)
  then show ?case by (simp add: splitOn_append_sep)
qed

lemma splitOn_append_any: "splitOn d (u @ d # s) = splitOn d u @ splitOn d s"
proof (induction u)
  case Nil
  show ?case by simp
next
  case (Cons c u)
  obtain x xs where x: "splitOn d u = x # xs" using splitOn_nonempty[of d u] by (cases "splitOn d u") auto
  show ?case using Cons x by simp
qed

lemma splitOn_join_middle:
  assumes "\<forall>l \<in> set xs. d \<notin> set l" and "\<forall>l \<in> set ys. d \<notin> set l"
  shows "splitOn d (joinWith d (xs @ [u] @ ys)) = xs @ splitOn d u @ ys"
  using assms(1)
proof (induction xs)
  case Nil
  show ?case
  proof (cases ys)
    case Nil
    then show ?thesis by simp
  next
    case (Cons y ys')
    have "splitOn d (joinWith d ys) = ys"
      using splitOn_joinWith[of ys d] assms(2) Cons by simp
    with Cons show ?thesis by (simp add: splitOn_append_any)
  qed
next
  case (Cons x xs)
  obtain z zs where z: "xs @ [u] @ ys = z # zs" by (cases "xs @ [u] @ ys") auto
  have "joinWith d ((x # xs) @ [u] @ ys) = x @ d # joinWith d (xs @ [u] @ ys)"
    using z by simp
  moreover have "d \<notin> set x" using Cons.prems by simp
  moreover have "splitOn d (joinWith d (xs @ [u] @ ys)) = xs @ splitOn d u @ ys"
    using Cons by simp
  ultimately show ?case by (simp add: splitOn_append_sep)
qed

section \<open>What a rewrite can put into a line\<close>

text \<open>
  Every code unit of a rewritten line comes from the line itself, from the new text, or is
  a double quote: the replacement patterns \<^verbatim>\<open>$&\<close>, \<^verbatim>\<open>$`\<close> and \<^verbatim>\<open>$'\<close> insert parts of the
  line, and a regular expression matches a part of its input.
\<close>

lemma getSubstitution_set:
  "set (getSubstitution m pre post r) \<subseteq> set m \<union> set pre \<union> set post \<union> set r"
  by (induction m pre post r rule: getSubstitution.induct) auto

lemma replaceAllFrom_set:
  "set (replaceAllFrom pat rep pre s) \<subseteq> set pre \<union> set s \<union> set rep"
proof (induction pat rep pre s rule: replaceAllFrom.induct)
  case (1 pat rep pre s)
  show ?case
  proof (cases "pat \<noteq> [] \<and> prefix pat s")
    case True
    then have p: "set pat \<subseteq> set s" by (simp add: set_mono_prefix)
    have d: "set (drop (length pat) s) \<subseteq> set s" by (rule set_drop_subset)
    have g: "set (getSubstitution pat pre (drop (length pat) s) rep) \<subseteq> set pre \<union> set s \<union> set rep"
      using getSubstitution_set[of pat pre "drop (length pat) s" rep] p d by blast
    have "set (replaceAllFrom pat rep (pre @ pat) (drop (length pat) s))
            \<subseteq> set (pre @ pat) \<union> set (drop (length pat) s) \<union> set rep"
      using "1.IH"(1)[OF True] .
    then have r: "set (replaceAllFrom pat rep (pre @ pat) (drop (length pat) s))
            \<subseteq> set pre \<union> set s \<union> set rep"
      using p d unfolding set_append by blast
    have e: "replaceAllFrom pat rep pre s
          = getSubstitution pat pre (drop (length pat) s) rep
              @ replaceAllFrom pat rep (pre @ pat) (drop (length pat) s)"
      using True by (subst replaceAllFrom.simps) simp
    show ?thesis unfolding e set_append using g r by blast
  next
    case False
    have g: "set (getSubstitution [] pre s rep) \<subseteq> set pre \<union> set s \<union> set rep"
      using getSubstitution_set[of "[]" pre s rep] by auto
    show ?thesis
    proof (cases s)
      case Nil
      have e: "replaceAllFrom pat rep pre s = (if pat = [] then getSubstitution [] pre s rep else [])"
        using False Nil by (subst replaceAllFrom.simps) simp
      show ?thesis unfolding e using g by auto
    next
      case (Cons c cs)
      have "set (replaceAllFrom pat rep (pre @ [c]) cs) \<subseteq> set (pre @ [c]) \<union> set cs \<union> set rep"
        using "1.IH"(2)[OF False Cons] .
      then have r: "set (replaceAllFrom pat rep (pre @ [c]) cs) \<subseteq> set pre \<union> set s \<union> set rep"
        unfolding Cons by auto
      have e: "replaceAllFrom pat rep pre s
           = (if pat = [] then getSubstitution [] pre s rep else [])
               @ c # replaceAllFrom pat rep (pre @ [c]) cs"
        using False Cons by (subst replaceAllFrom.simps) auto
      have "c \<in> set s" unfolding Cons by simp
      then show ?thesis unfolding e set_append using g r by auto
    qed
  qed
qed

lemma replaceFirstFrom_set:
  "set (replaceFirstFrom pat rep pre s) \<subseteq> set pre \<union> set s \<union> set rep"
proof (induction s arbitrary: pre)
  case Nil
  show ?case using getSubstitution_set[of "[]" pre "[]" rep] by auto
next
  case (Cons c cs)
  show ?case
  proof (cases "prefix pat (c # cs)")
    case True
    then have p: "set pat \<subseteq> set (c # cs)" by (rule set_mono_prefix)
    have d: "set (drop (length pat) (c # cs)) \<subseteq> set (c # cs)" by (rule set_drop_subset)
    show ?thesis
      using True getSubstitution_set[of pat pre "drop (length pat) (c # cs)" rep] p d
      by (simp only: replaceFirstFrom.simps if_True set_append) blast
  next
    case False
    have "set (replaceFirstFrom pat rep (pre @ [c]) cs) \<subseteq> set (pre @ [c]) \<union> set cs \<union> set rep"
      using Cons[of "pre @ [c]"] .
    then show ?thesis using False by auto
  qed
qed

lemma slice_set: "set (slice s a b) \<subseteq> set s"
proof -
  have "set (take n (drop k s)) \<subseteq> set s" for n k
    using set_take_subset[of n "drop k s"] set_drop_subset[of k s] by blast
  then show ?thesis unfolding slice_def Let_def .
qed

lemma rx_run_suffix: "rest \<in> set (rx_run r b s) \<Longrightarrow> suffix rest s"
proof (induction r b s arbitrary: rest rule: rx_run.induct)
  case (1 b s)
  then show ?case by simp
next
  case (2 p b s)
  then show ?case by (auto split: list.splits if_splits simp: suffix_Cons)
next
  case (3 r1 r2 b s)
  from "3.prems" obtain s1 where s1: "s1 \<in> set (rx_run r1 b s)"
    and r: "rest \<in> set (rx_run r2 (b \<and> length s1 = length s) s1)"
    by auto
  from "3.IH"(1)[OF s1] "3.IH"(2)[OF s1 r] show ?case by (rule suffix_order.trans[rotated])
next
  case (4 r1 r2 b s)
  then show ?case by auto
next
  case (5 r b s)
  from "5.prems" have "rest = s \<or> (\<exists>s1 \<in> set (rx_run r b s). length s1 < length s
      \<and> rest \<in> set (rx_run (Star r) False s1))"
    by (subst (asm) rx_run.simps) (auto split: if_splits)
  then show ?case
  proof
    assume "rest = s" then show ?thesis by simp
  next
    assume "\<exists>s1 \<in> set (rx_run r b s). length s1 < length s
      \<and> rest \<in> set (rx_run (Star r) False s1)"
    then obtain s1 where s1: "s1 \<in> set (rx_run r b s)" and l: "length s1 < length s"
      and r: "rest \<in> set (rx_run (Star r) False s1)" by blast
    from "5.IH"(1)[OF s1] "5.IH"(2)[OF s1 l r] show ?thesis by (rule suffix_order.trans[rotated])
  qed
next
  case (6 r b s)
  from "6.prems" have "rest = s \<or> (\<exists>s1 \<in> set (rx_run r b s). length s1 < length s
      \<and> rest \<in> set (rx_run (Lazy r) False s1))"
    by (subst (asm) rx_run.simps) (auto split: if_splits)
  then show ?case
  proof
    assume "rest = s" then show ?thesis by simp
  next
    assume "\<exists>s1 \<in> set (rx_run r b s). length s1 < length s
      \<and> rest \<in> set (rx_run (Lazy r) False s1)"
    then obtain s1 where s1: "s1 \<in> set (rx_run r b s)" and l: "length s1 < length s"
      and r: "rest \<in> set (rx_run (Lazy r) False s1)" by blast
    from "6.IH"(1)[OF s1] "6.IH"(2)[OF s1 l r] show ?thesis by (rule suffix_order.trans[rotated])
  qed
next
  case (7 b s)
  then show ?case by (auto split: if_splits)
next
  case (8 b s)
  then show ?case by (auto split: if_splits)
qed

lemma rx_run_hd_set: "rx_run r b s = rest # others \<Longrightarrow> set rest \<subseteq> set s"
  using rx_run_suffix[of rest r b s] by (auto simp: suffix_def)

lemma rx_replaceAllFrom_set:
  "(\<And>m pre post. set m \<subseteq> A \<Longrightarrow> set pre \<subseteq> A \<Longrightarrow> set post \<subseteq> A
                \<Longrightarrow> set (f m pre post) \<subseteq> A)
   \<Longrightarrow> set pre \<subseteq> A \<Longrightarrow> set s \<subseteq> A \<Longrightarrow> set (rx_replaceAllFrom r f pre s) \<subseteq> A"
proof (induction r f pre s rule: rx_replaceAllFrom.induct)
  case (1 r f pre s)
  note f = "1.prems"(1) and pre = "1.prems"(2) and s = "1.prems"(3)
  have tail: "set (case s of [] \<Rightarrow> [] | c # cs \<Rightarrow> c # rx_replaceAllFrom r f (pre @ [c]) cs) \<subseteq> A"
    if "rx_run r (pre = []) s = [] \<or> (\<exists>rest others. rx_run r (pre = []) s = rest # others \<and> \<not> length rest < length s)"
  proof (cases s)
    case Nil
    then show ?thesis by simp
  next
    case (Cons c cs)
    have "set (rx_replaceAllFrom r f (pre @ [c]) cs) \<subseteq> A"
      using that
    proof
      assume e: "rx_run r (pre = []) s = []"
      show ?thesis using "1.IH"(1)[OF e Cons f] pre s Cons by simp
    next
      assume "\<exists>rest others. rx_run r (pre = []) s = rest # others \<and> \<not> length rest < length s"
      then obtain rest others where e: "rx_run r (pre = []) s = rest # others"
        and l: "\<not> length rest < length s" by blast
      show ?thesis using "1.IH"(3)[OF e l Cons f] pre s Cons by simp
    qed
    with Cons s show ?thesis by simp
  qed
  show ?case
  proof (cases "rx_run r (pre = []) s")
    case Nil
    then show ?thesis using tail by (subst rx_replaceAllFrom.simps) simp
  next
    case (Cons rest others)
    have rs: "set rest \<subseteq> A" using rx_run_hd_set[OF Cons] s by blast
    have tk: "set (take (length s - length rest) s) \<subseteq> A"
      using set_take_subset[of "length s - length rest" s] s by blast
    show ?thesis
    proof (cases "length rest < length s")
      case True
      have "set (rx_replaceAllFrom r f (pre @ take (length s - length rest) s) rest) \<subseteq> A"
        using "1.IH"(2)[OF Cons True f] pre tk rs by simp
      moreover have "set (f (take (length s - length rest) s) pre rest) \<subseteq> A"
        using f[OF tk pre rs] .
      ultimately show ?thesis using Cons True by (subst rx_replaceAllFrom.simps) simp
    next
      case False
      have "set (f [] pre s) \<subseteq> A" using f[of "[]" pre s] pre s by simp
      moreover have "set (case s of [] \<Rightarrow> [] | c # cs \<Rightarrow> c # rx_replaceAllFrom r f (pre @ [c]) cs) \<subseteq> A"
        using tail Cons False by blast
      ultimately show ?thesis using Cons False by (subst rx_replaceAllFrom.simps) simp
    qed
  qed
qed

lemma rx_matchAllFrom_set: "m \<in> set (rx_matchAllFrom r pre s) \<Longrightarrow> set m \<subseteq> set s"
proof (induction r pre s rule: rx_matchAllFrom.induct)
  case (1 r pre s)
  show ?case
  proof (cases "rx_run r (pre = []) s")
    case Nil
    show ?thesis
    proof (cases s)
      case Nil': Nil
      with Nil "1.prems" show ?thesis by (subst (asm) rx_matchAllFrom.simps) simp
    next
      case (Cons c cs)
      from Nil Cons "1.prems" have "m \<in> set (rx_matchAllFrom r (pre @ [c]) cs)"
        by (subst (asm) rx_matchAllFrom.simps) simp
      from "1.IH"(1)[OF Nil Cons this] Cons show ?thesis by auto
    qed
  next
    case (Cons rest others)
    have rs: "set rest \<subseteq> set s" using rx_run_hd_set[OF Cons] .
    have tk: "set (take (length s - length rest) s) \<subseteq> set s" by (rule set_take_subset)
    show ?thesis
    proof (cases "length rest < length s")
      case True
      from Cons True "1.prems" have "m = take (length s - length rest) s
          \<or> m \<in> set (rx_matchAllFrom r (pre @ take (length s - length rest) s) rest)"
        by (subst (asm) rx_matchAllFrom.simps) simp
      then show ?thesis using "1.IH"(2)[OF Cons True] tk rs by blast
    next
      case False
      show ?thesis
      proof (cases s)
        case Nil
        with Cons False "1.prems" show ?thesis by (subst (asm) rx_matchAllFrom.simps) simp
      next
        case Cons': (Cons c cs)
        from Cons False Cons' "1.prems" have "m = [] \<or> m \<in> set (rx_matchAllFrom r (pre @ [c]) cs)"
          by (subst (asm) rx_matchAllFrom.simps) simp
        then show ?thesis using "1.IH"(3)[OF Cons False Cons'] Cons' by auto
      qed
    qed
  qed
qed

lemma rx_matchAt_set: "rx_matchAt r b s = Some (m, rest) \<Longrightarrow> set m \<subseteq> set s"
  unfolding rx_matchAt_def using set_take_subset by (fastforce split: list.splits)

lemma rx_searchFrom_set: "rx_searchFrom r pre s = Some (p, m, rest) \<Longrightarrow> set m \<subseteq> set s"
proof (induction s arbitrary: pre)
  case Nil
  then show ?case by (auto split: option.splits dest: rx_matchAt_set)
next
  case (Cons c cs)
  show ?case
  proof (cases "rx_matchAt r (pre = []) (c # cs)")
    case None
    with Cons.prems have "rx_searchFrom r (pre @ [c]) cs = Some (p, m, rest)" by simp
    from Cons.IH[OF this] show ?thesis by auto
  next
    case (Some a)
    with Cons.prems have "rx_matchAt r (pre = []) (c # cs) = Some (m, rest)"
      by (cases a) auto
    then show ?thesis by (rule rx_matchAt_set)
  qed
qed

lemma replaceAll_set: "set s \<subseteq> A \<Longrightarrow> set rep \<subseteq> A \<Longrightarrow> set (replaceAll pat rep s) \<subseteq> A"
  unfolding replaceAll_def using replaceAllFrom_set[of pat rep "[]" s] by auto

lemma replaceFirst_set: "set s \<subseteq> A \<Longrightarrow> set rep \<subseteq> A \<Longrightarrow> set (replaceFirst pat rep s) \<subseteq> A"
  unfolding replaceFirst_def using replaceFirstFrom_set[of pat rep "[]" s] by auto

lemma slice_in: "set s \<subseteq> A \<Longrightarrow> set (slice s a b) \<subseteq> A"
  using slice_set[of s a b] by blast

lemma rewriteSegment_set:
  "set result \<subseteq> A \<Longrightarrow> set t \<subseteq> A \<Longrightarrow> set new \<subseteq> A
     \<Longrightarrow> set (rewriteSegment old new result t) \<subseteq> A"
  unfolding rewriteSegment_def by (simp add: replaceFirst_set replaceAll_set)

lemma replaceJsonValue_set:
  assumes "set line \<subseteq> A" and "set new \<subseteq> A" and "34 \<in> A"
  shows "set (replaceJsonValue line old new) \<subseteq> A"
  unfolding replaceJsonValue_def Let_def rx_replaceAll_def
  by (rule rx_replaceAllFrom_set) (use assms in \<open>auto simp: replaceAll_set slice_in\<close>)

lemma preserveEntityQuotesSimple_set:
  assumes "set line \<subseteq> A" and "set new \<subseteq> A"
  shows "set (preserveEntityQuotesSimple line old new) \<subseteq> A"
  unfolding preserveEntityQuotesSimple_def Let_def rx_replaceAll_def
proof (rule rx_replaceAllFrom_set)
  fix m pre post :: jsstring
  assume m: "set m \<subseteq> A"
  have "set (take 6 m) \<subseteq> A" using set_take_subset[of 6 m] m by blast
  moreover have "set (slice m (- 6) (int (length m))) \<subseteq> A" using m by (rule slice_in)
  ultimately show "set (if str_includes (slice m 6 (- 6))
                  (if startsWith old (js ''&quot;'') \<and> endsWith old (js ''&quot;'')
                   then slice old 6 (- 6) else old) \<or>
                 slice m 6 (- 6) =
                 (if startsWith old (js ''&quot;'') \<and> endsWith old (js ''&quot;'')
                  then slice old 6 (- 6) else old) \<or>
                 m = old
              then take 6 m @ new @ slice m (- 6) (int (length m)) else m) \<subseteq> A"
    using m assms(2) by auto
qed (use assms in auto)

lemma foldl_rewrite_set:
  "set result \<subseteq> A \<Longrightarrow> set new \<subseteq> A \<Longrightarrow> \<forall>m \<in> set ms. set m \<subseteq> A
     \<Longrightarrow> set (foldl (\<lambda>result m. rewriteSegment old new result (slice m 1 (-1))) result ms) \<subseteq> A"
  by (induction ms arbitrary: result) (auto simp: rewriteSegment_set slice_in)

lemma rewrite_exec_set:
  assumes "set res \<subseteq> A" and "set new \<subseteq> A"
    and "\<And>p m rest. e = Some (p, m, rest) \<Longrightarrow> set m \<subseteq> A"
    and "\<And>m. set m \<subseteq> A \<Longrightarrow> set (g m) \<subseteq> A"
  shows "set (case e of None \<Rightarrow> res
              | Some (pre, m, rest) \<Rightarrow> rewriteSegment old new res (g m)) \<subseteq> A"
proof (cases e)
  case None
  with assms(1) show ?thesis by simp
next
  case (Some t)
  obtain p m rest where t: "t = (p, m, rest)" by (cases t)
  have "set (rewriteSegment old new res (g m)) \<subseteq> A"
    using assms(1) assms(4)[OF assms(3)[OF Some[unfolded t]]] assms(2) by (rule rewriteSegment_set)
  with Some t show ?thesis by simp
qed

lemma replaceTextContent_set:
  assumes "set line \<subseteq> A" and "set new \<subseteq> A" and "34 \<in> A"
  shows "set (replaceTextContent line old new) \<subseteq> A"
proof -
  have ms: "\<forall>m \<in> set (rx_matchAll textContentRegex line). set m \<subseteq> A"
    unfolding rx_matchAll_def using rx_matchAllFrom_set assms(1) by blast
  have ex: "set m \<subseteq> A" if "rx_exec r line = Some (p, m, rest)" for r p m rest
    using that rx_searchFrom_set assms(1) unfolding rx_exec_def by blast
  let ?r1 = "foldl (\<lambda>result m. rewriteSegment old new result (slice m 1 (-1))) line
               (rx_matchAll textContentRegex line)"
  let ?r2 = "case rx_exec beforeFirstTagRegex line of None \<Rightarrow> ?r1
             | Some (pre, m, rest) \<Rightarrow> rewriteSegment old new ?r1 (slice m 0 (-1))"
  let ?r3 = "case rx_exec afterLastTagRegex line of None \<Rightarrow> ?r2
             | Some (pre, m, rest) \<Rightarrow> rewriteSegment old new ?r2 (slice m 1 (int (length m)))"
  have r1: "set ?r1 \<subseteq> A" using assms ms by (simp add: foldl_rewrite_set)
  have r2: "set ?r2 \<subseteq> A"
    using r1 assms(2) ex slice_in
    by (rule rewrite_exec_set[where g = "\<lambda>m. slice m 0 (-1)"])
  have r3: "set ?r3 \<subseteq> A"
    using r2 assms(2) ex slice_in
    by (rule rewrite_exec_set[where g = "\<lambda>m. slice m 1 (int (length m))"])
  show ?thesis
    unfolding replaceTextContent_def Let_def
    using r3 assms by (simp add: replaceJsonValue_set preserveEntityQuotesSimple_set replaceAll_set)
qed

lemma rewritten_line_no_break:
  assumes "10 \<notin> set line" and "10 \<notin> set new"
  shows "10 \<notin> set (replaceTextContent line old new)"
    and "10 \<notin> set (replaceFirst old new line)"
proof -
  have "set (replaceTextContent line old new) \<subseteq> - {10}"
    by (rule replaceTextContent_set) (use assms in auto)
  then show "10 \<notin> set (replaceTextContent line old new)" by blast
  have "set (replaceFirst old new line) \<subseteq> - {10}"
    by (rule replaceFirst_set) (use assms in auto)
  then show "10 \<notin> set (replaceFirst old new line)" by blast
qed

section \<open>The normalizer and idempotence\<close>

lemma okSpaces_Cons:
  "okSpaces (c # xs) = ((isSpace c \<longrightarrow> c = 32 \<and> (xs = [] \<or> \<not> isSpace (hd xs))) \<and> okSpaces xs)"
  by (cases xs) auto

lemma collapse_Nil: "collapseSpaces xs = [] \<longleftrightarrow> xs = []"
  by (cases xs) auto

lemma collapse_hd: "xs \<noteq> [] \<Longrightarrow> \<not> isSpace (hd xs) \<Longrightarrow> hd (collapseSpaces xs) = hd xs"
  by (cases xs) auto

lemma okSpaces_collapse: "okSpaces (collapseSpaces s)"
proof (induction s rule: collapseSpaces.induct)
  case 1
  show ?case by simp
next
  case (2 c cs)
  show ?case
  proof (cases "isSpace c")
    case True
    let ?r = "dropWhile isSpace cs"
    have "?r = [] \<or> \<not> isSpace (hd ?r)" by (metis hd_dropWhile)
    then have "collapseSpaces ?r = [] \<or> \<not> isSpace (hd (collapseSpaces ?r))"
      by (metis collapse_Nil collapse_hd)
    with True 2 show ?thesis by (simp add: okSpaces_Cons)
  next
    case False
    with 2 show ?thesis by (simp add: okSpaces_Cons)
  qed
qed

lemma collapse_ok: "okSpaces s \<Longrightarrow> collapseSpaces s = s"
  by (induction s rule: okSpaces.induct) auto

lemma okSpaces_append: "okSpaces (xs @ ys) \<Longrightarrow> okSpaces xs \<and> okSpaces ys"
proof (induction xs)
  case Nil
  then show ?case by simp
next
  case (Cons x xs)
  then show ?case by (cases xs) (auto simp: okSpaces_Cons)
qed

lemma okSpaces_dropWhile: "okSpaces s \<Longrightarrow> okSpaces (dropWhile P s)"
  using dropWhile_decomp[of s P] okSpaces_append by metis

lemma okSpaces_dropTrailing: "okSpaces s \<Longrightarrow> okSpaces (dropTrailing P s)"
  using dropTrailing_append[of s P] okSpaces_append by metis

lemma okSpaces_stripFinalDot: "okSpaces s \<Longrightarrow> okSpaces (stripFinalDot s)"
  unfolding stripFinalDot_def using okSpaces_append[of "butlast s" "[last s]"]
  by (cases "s = []") (simp_all del: okSpaces.simps)

lemma okSpaces_trim: "okSpaces s \<Longrightarrow> okSpaces (trim s)"
  unfolding trim_def by (simp add: okSpaces_dropWhile okSpaces_dropTrailing)

lemma clean_noSpecial: "noSpecial (cleanSearchText s)"
proof -
  define a where
    "a = foldl (\<lambda>cl (entity, replacement). replaceAll entity replacement cl) (trim s) entityMap"
  define b where
    "b = replaceChars [0x201A] sq (replaceChars [0x201E] dq (replaceChars [0x2018, 0x2019] sq
          (replaceChars [0x201C, 0x201D] dq (replaceChars [0x2026] (js ''...'')
            (replaceChars [0xA0] (js '' '') a)))))"
  have b: "set b \<inter> {160, 8230, 8220, 8221, 8216, 8217, 8222, 8218} = {}"
    unfolding b_def by (auto simp: in_set_replaceChars)
  have "cleanSearchText s
          = trim (stripFinalDot (dropTrailing isQuoteCode (dropWhile isQuoteCode (collapseSpaces b))))"
    unfolding cleanSearchText_def b_def a_def Let_def ..
  moreover have
    "set (trim (stripFinalDot (dropTrailing isQuoteCode (dropWhile isQuoteCode (collapseSpaces b)))))
       \<subseteq> set b \<union> {32}"
    using set_trim set_stripFinalDot set_dropTrailing set_collapseSpaces set_dropWhileD
    by (metis (no_types, opaque_lifting) subset_iff)
  ultimately show ?thesis using b unfolding noSpecial_def by auto
qed

lemma clean_okSpaces: "okSpaces (cleanSearchText s)"
  unfolding cleanSearchText_def Let_def
  by (intro okSpaces_trim okSpaces_stripFinalDot okSpaces_dropTrailing okSpaces_dropWhile
        okSpaces_collapse)

lemma clean_trimmed: "trim (cleanSearchText s) = cleanSearchText s"
  unfolding cleanSearchText_def Let_def by (rule trim_idem)

lemma entities_id:
  assumes "\<forall>e \<in> fst ` set entityMap. \<not> str_includes t e"
  shows "foldl (\<lambda>cl (entity, replacement). replaceAll entity replacement cl) t entityMap = t"
  using assms unfolding entityMap_def replaceAll_def
  by (simp add: replaceAllFrom_id)

lemma clean_fixed:
  assumes sp: "noSpecial t" and ok: "okSpaces t" and tr: "trim t = t"
    and ent: "\<forall>e \<in> fst ` set entityMap. \<not> str_includes t e"
    and ends: "t \<noteq> [] \<longrightarrow> hd t \<notin> {34, 39} \<and> last t \<notin> {34, 39, 46}"
  shows "cleanSearchText t = t"
proof -
  have q: "t = [] \<or> (\<not> isQuoteCode (hd t) \<and> \<not> isQuoteCode (last t))"
    using sp ends unfolding noSpecial_def isQuoteCode_def
    by (cases "t = []") (auto dest: hd_in_set last_in_set)
  have r: "replaceChars cls rep t = t"
    if "set cls \<subseteq> {160, 8230, 8220, 8221, 8216, 8217, 8222, 8218}" for cls rep
    using sp that unfolding noSpecial_def by (intro replaceChars_id) auto
  have d: "stripFinalDot t = t" using ends unfolding stripFinalDot_def by auto
  have dw: "dropWhile isQuoteCode t = t" using q by (intro dropWhile_fix) auto
  have dt: "dropTrailing isQuoteCode t = t" using q by (intro dropTrailing_fix) auto
  show ?thesis
    unfolding cleanSearchText_def Let_def
    by (simp add: tr entities_id[OF ent] r collapse_ok[OF ok] dw dt d)
qed

text \<open>
  Claim C3, as the specification states it: \<open>cleanSearchText\<close> is idempotent. It is not:
  the normalizer strips one final period, so a text that ends in two periods loses one
  at each pass.
\<close>

theorem cleanSearchText_not_idempotent:
  "cleanSearchText (cleanSearchText (js ''a..'')) \<noteq> cleanSearchText (js ''a..'')"
  by code_simp

text \<open>
  Claim C3, amended: a second pass changes nothing when the result of the first pass
  contains none of the entities of the table, neither begins nor ends with a straight
  quotation mark, and does not end with a period.
\<close>

theorem cleanSearchText_idempotent_on_settled:
  assumes "\<forall>e \<in> fst ` set entityMap. \<not> str_includes (cleanSearchText s) e"
    and "cleanSearchText s \<noteq> [] \<longrightarrow>
           hd (cleanSearchText s) \<notin> {34, 39} \<and> last (cleanSearchText s) \<notin> {34, 39, 46}"
  shows "cleanSearchText (cleanSearchText s) = cleanSearchText s"
  using assms by (intro clean_fixed clean_noSpecial clean_okSpaces clean_trimmed)

theorem cleanSearchText_idempotent_on_settled_witness:
  "cleanSearchText (js ''  &ldquo;Hello   world&rdquo; '') = js ''Hello world''
   \<and> cleanSearchText (cleanSearchText (js ''  &ldquo;Hello   world&rdquo; '')) = js ''Hello world''"
proof -
  have e: "cleanSearchText (js ''  &ldquo;Hello   world&rdquo; '') = js ''Hello world''"
    by code_simp
  have h1: "\<forall>e \<in> fst ` set entityMap.
              \<not> str_includes (cleanSearchText (js ''  &ldquo;Hello   world&rdquo; '')) e"
    unfolding e by code_simp
  have h2: "cleanSearchText (js ''  &ldquo;Hello   world&rdquo; '') \<noteq> [] \<longrightarrow>
              hd (cleanSearchText (js ''  &ldquo;Hello   world&rdquo; '')) \<notin> {34, 39}
              \<and> last (cleanSearchText (js ''  &ldquo;Hello   world&rdquo; '')) \<notin> {34, 39, 46}"
    unfolding e by simp
  show ?thesis using cleanSearchText_idempotent_on_settled[OF h1 h2] e by simp
qed

section \<open>The source patcher\<close>



lemma break_rewrite:
  "replaceTextContent (js ''<p>Hi</p>'') (js ''Hi'') (js ''Y'' @ [10] @ js ''o'')
     = js ''<p>Y'' @ [10] @ js ''o</p>''"
  by code_simp

text \<open>
  Claim C2, as the specification states it: after a successful \<open>updateSourceFile\<close> every
  line of the file other than the matched line is as before. The request of the first
  example with a new text of two lines succeeds on the second line of the file; the file
  then has four lines instead of three, and its third line, which was \<^verbatim>\<open></div>\<close>, is
  \<^verbatim>\<open>o</p>\<close>.
\<close>

theorem line_break_in_new_text:
  "updateSourceFile exampleFiles exampleMatch breakContext
     = (None, exampleFiles(js ''a.html'' \<mapsto>
          js ''<div>'' @ [10] @ js ''<p>Y'' @ [10] @ js ''o</p>'' @ [10] @ js ''</div>''))
   \<and> lineNumber exampleMatch = 2
   \<and> splitOn 10 (js ''<div>'' @ [10] @ js ''<p>Hi</p>'' @ [10] @ js ''</div>'')
       = [js ''<div>'', js ''<p>Hi</p>'', js ''</div>'']
   \<and> splitOn 10 (js ''<div>'' @ [10] @ js ''<p>Y'' @ [10] @ js ''o</p>'' @ [10] @ js ''</div>'')
       = [js ''<div>'', js ''<p>Y'', js ''o</p>'', js ''</div>'']"
proof -
  have "updateSourceFile exampleFiles exampleMatch breakContext
     = (None, exampleFiles(js ''a.html'' \<mapsto>
          js ''<div>'' @ [10] @ js ''<p>Y'' @ [10] @ js ''o</p>'' @ [10] @ js ''</div>''))"
    using break_rewrite
    by (simp add: updateSourceFile_def exampleFiles_def exampleMatch_def exampleContext_def
          breakContext_def Let_def)
  then show ?thesis by (simp add: exampleMatch_def)
qed

text \<open>
  Claim C2, amended: after a successful \<open>updateSourceFile\<close> every other file is as before,
  and the lines of the file of the match are the lines before the matched line, the lines
  of the rewritten line, and the lines after the matched line. When the new text has no
  line feed, neither has the rewritten line: the file has as many lines as before, and
  each line but the matched one is the same.
\<close>

theorem updateSourceFile_frame:
  assumes "updateSourceFile fs m ctx = (None, fs')"
  shows "\<exists>content content'.
           fs (filePath m) = Some content \<and> fs' (filePath m) = Some content'
           \<and> (\<forall>p. p \<noteq> filePath m \<longrightarrow> fs' p = fs p)
           \<and> 0 < lineNumber m \<and> lineNumber m \<le> length (splitOn 10 content)
           \<and> (let line = splitOn 10 content ! (lineNumber m - 1);
                   u = replaceTextContent line (matchedText m) (newText ctx);
                   u = (if u = line then replaceFirst (matchedText m) (newText ctx) line else u)
               in splitOn 10 content'
                    = take (lineNumber m - 1) (splitOn 10 content) @ splitOn 10 u
                        @ drop (lineNumber m) (splitOn 10 content))
           \<and> (10 \<notin> set (newText ctx) \<longrightarrow>
                length (splitOn 10 content') = length (splitOn 10 content)
                \<and> (\<forall>i < length (splitOn 10 content).
                      i \<noteq> lineNumber m - 1 \<longrightarrow> splitOn 10 content' ! i = splitOn 10 content ! i))"
proof -
  from assms obtain content where c: "fs (filePath m) = Some content"
    by (auto simp: updateSourceFile_def split: option.splits)
  let ?ls = "splitOn 10 content"
  let ?k = "lineNumber m - 1"
  let ?line = "?ls ! ?k"
  let ?r = "replaceTextContent ?line (matchedText m) (newText ctx)"
  let ?u = "if ?r = ?line then replaceFirst (matchedText m) (newText ctx) ?line else ?r"
  let ?new = "joinWith 10 (?ls[?k := ?u])"
  from assms c have n: "0 < lineNumber m" "lineNumber m \<le> length ?ls"
    by (auto simp: updateSourceFile_def Let_def split: if_splits)
  from assms c n have fs': "fs' = fs(filePath m \<mapsto> ?new)"
    by (auto simp: updateSourceFile_def Let_def split: if_splits)
  from n have k: "?k < length ?ls" by simp
  have upd: "?ls[?k := ?u] = take ?k ?ls @ [?u] @ drop (lineNumber m) ?ls"
    using k n by (simp add: upd_conv_take_nth_drop)
  have free: "\<forall>l \<in> set ?ls. 10 \<notin> set l" using splitOn_no_sep[of _ 10 content] by blast
  have lines: "splitOn 10 ?new = take ?k ?ls @ splitOn 10 ?u @ drop (lineNumber m) ?ls"
    unfolding upd
  proof (rule splitOn_join_middle)
    show "\<forall>l \<in> set (take ?k ?ls). 10 \<notin> set l" using free by (meson in_set_takeD)
    show "\<forall>l \<in> set (drop (lineNumber m) ?ls). 10 \<notin> set l" using free by (meson in_set_dropD)
  qed
  have same: "length (splitOn 10 ?new) = length ?ls
      \<and> (\<forall>i < length ?ls. i \<noteq> ?k \<longrightarrow> splitOn 10 ?new ! i = ?ls ! i)"
    if nt: "10 \<notin> set (newText ctx)"
  proof -
    have "10 \<notin> set ?line" using free k by simp
    then have "10 \<notin> set ?u" using rewritten_line_no_break[OF _ nt] by simp
    then have "splitOn 10 ?u = [?u]" by (rule splitOn_line)
    with lines have "splitOn 10 ?new = ?ls[?k := ?u]" unfolding upd by simp
    then show ?thesis by simp
  qed
  have "fs (filePath m) = Some content \<and> fs' (filePath m) = Some ?new
           \<and> (\<forall>p. p \<noteq> filePath m \<longrightarrow> fs' p = fs p)
           \<and> 0 < lineNumber m \<and> lineNumber m \<le> length ?ls
           \<and> splitOn 10 ?new = take ?k ?ls @ splitOn 10 ?u @ drop (lineNumber m) ?ls
           \<and> (10 \<notin> set (newText ctx) \<longrightarrow>
                length (splitOn 10 ?new) = length ?ls
                \<and> (\<forall>i < length ?ls. i \<noteq> ?k \<longrightarrow> splitOn 10 ?new ! i = ?ls ! i))"
    using c n fs' lines same by simp
  then show ?thesis unfolding Let_def by blast
qed

lemma example_rewrite:
  "replaceTextContent (js ''<p>Hi</p>'') (js ''Hi'') (js ''Yo'') = js ''<p>Yo</p>''"
  by code_simp

theorem updateSourceFile_frame_witness:
  "updateSourceFile exampleFiles exampleMatch exampleContext
     = (None, exampleFiles(js ''a.html'' \<mapsto>
                 js ''<div>'' @ [10] @ js ''<p>Yo</p>'' @ [10] @ js ''</div>''))
   \<and> 10 \<notin> set (newText exampleContext)
   \<and> splitOn 10 (js ''<div>'' @ [10] @ js ''<p>Hi</p>'' @ [10] @ js ''</div>'')
       = [js ''<div>'', js ''<p>Hi</p>'', js ''</div>'']
   \<and> splitOn 10 (js ''<div>'' @ [10] @ js ''<p>Yo</p>'' @ [10] @ js ''</div>'')
       = [js ''<div>'', js ''<p>Yo</p>'', js ''</div>'']"
proof -
  have e: "updateSourceFile exampleFiles exampleMatch exampleContext
             = (None, exampleFiles(js ''a.html'' \<mapsto>
                        js ''<div>'' @ [10] @ js ''<p>Yo</p>'' @ [10] @ js ''</div>''))"
    using example_rewrite
    by (simp add: updateSourceFile_def exampleFiles_def exampleMatch_def exampleContext_def Let_def)
  have n: "10 \<notin> set (newText exampleContext)" by (simp add: exampleContext_def)
  from updateSourceFile_frame [OF e] n
  have "length (splitOn 10 (js ''<div>'' @ [10] @ js ''<p>Yo</p>'' @ [10] @ js ''</div>''))
          = length (splitOn 10 (js ''<div>'' @ [10] @ js ''<p>Hi</p>'' @ [10] @ js ''</div>''))"
    by (auto simp: exampleMatch_def exampleFiles_def)
  with e n show ?thesis by simp
qed

section \<open>The pipeline\<close>

lemma scoredMatch_score:
  "score (scoredMatch ctx m) = fst (baseScore ctx m)"
  "confidence (scoredMatch ctx m) = min (fst (baseScore ctx m) / 4) 1"
  by (simp_all add: scoredMatch_def FileMatch.defs ScoredMatch.defs split: prod.splits)

lemma scoredMatch_fields:
  "FileMatch.truncate (scoredMatch ctx m) = m"
  "filePath (scoredMatch ctx m) = filePath m"
  "lineNumber (scoredMatch ctx m) = lineNumber m"
  "originalLine (scoredMatch ctx m) = originalLine m"
  "matchedText (scoredMatch ctx m) = matchedText m"
  "isAttributeMatch (scoredMatch ctx m) = isAttributeMatch m"
  "isTextContentMatch (scoredMatch ctx m) = isTextContentMatch m"
  "isExactMatch (scoredMatch ctx m) = isExactMatch m"
  by (simp_all add: scoredMatch_def FileMatch.defs ScoredMatch.defs split: prod.splits)

lemma baseScore_ge: "1 \<le> fst (baseScore ctx m)"
  unfolding baseScore_def Let_def by (simp split: prod.splits)

lemma baseScore_exact: "isExactMatch m \<Longrightarrow> 5 \<le> fst (baseScore ctx m)"
  unfolding baseScore_def Let_def by (simp split: prod.splits)

lemma scored_confidence:
  "0 \<le> confidence (scoredMatch ctx m)" "confidence (scoredMatch ctx m) \<le> 1"
  using baseScore_ge[of ctx m] by (simp_all add: scoredMatch_score)

lemma scored_confidence_exact: "isExactMatch m \<Longrightarrow> confidence (scoredMatch ctx m) = 1"
  using baseScore_exact[of m ctx] by (simp add: scoredMatch_score)

lemma scan_exact: "m \<in> set (findTextInSourceFiles L allFiles fs t) \<Longrightarrow> isExactMatch m"
  by (auto simp: findTextInSourceFiles_def scanFile_def candidateMatch_def Let_def
           split: option.splits if_splits)

lemma filter_subset: "set (filterByPageContext L ms pc) \<subseteq> set ms"
  by (auto simp: filterByPageContext_def Let_def dest: in_set_takeD)

lemma scored_shape:
  "set (scoreMatchesWithContext L fs ms ctx)
     = scoredMatch ctx ` {m \<in> set ms. passesValidation L fs ctx (length ms = 1) m}"
  by (auto simp: scoreMatchesWithContext_def Let_def)

lemma filter_hd_mem:
  assumes "filter P xs = y # ys"
  shows "y \<in> set xs \<and> P y"
proof -
  have "y \<in> set (filter P xs)" using assms by simp
  then show ?thesis by simp
qed

lemma best_mem: "findBestMatch L ms = Some b \<Longrightarrow> b \<in> set ms"
  unfolding findBestMatch_def
  by (cases ms) (auto split: list.splits dest!: filter_hd_mem simp del: filter.simps)

text \<open>The edit of the second example project, stage by stage.\<close>

lemma tie_scan:
  "findTextInSourceFiles asciiLib tieFiles tieDisk (originalText tieContext) = [tieFirst, tieSecond]"
  by code_simp

lemma tie_filter:
  "filterByPageContext asciiLib [tieFirst, tieSecond] (pageContext tieContext) = [tieSecond, tieFirst]"
  by code_simp

lemma tie_valid_first: "passesValidation asciiLib tieDisk tieContext False tieFirst"
  by code_simp

lemma tie_valid_second: "passesValidation asciiLib tieDisk tieContext False tieSecond"
  by code_simp

lemma tie_conf_first: "confidence (scoredMatch tieContext tieFirst) = 1"
  by code_simp

lemma tie_conf_second: "confidence (scoredMatch tieContext tieSecond) = 1"
  by code_simp

lemma tie_scored:
  "scoreMatchesWithContext asciiLib tieDisk [tieSecond, tieFirst] tieContext
     = [scoredMatch tieContext tieSecond, scoredMatch tieContext tieFirst]"
  by (simp add: scoreMatchesWithContext_def tie_valid_first tie_valid_second
        tie_conf_first tie_conf_second)

lemma tie_best:
  "findBestMatch asciiLib [scoredMatch tieContext tieSecond, scoredMatch tieContext tieFirst]
     = Some (scoredMatch tieContext tieSecond)"
  by code_simp

lemma tie_rewrite: "replaceTextContent tieLine (js ''Hi'') (js ''Yo'') = tieLine"
  by code_simp

lemma tie_fallback:
  "replaceFirst (js ''Hi'') (js ''Yo'') tieLine = js ''<div class='' @ dq @ js ''Yo'' @ dq @ js ''>''"
  by code_simp

lemma tie_lines: "splitOn 10 tieLine = [tieLine]"
  by code_simp

lemma tie_update:
  "updateSourceFile tieDisk (scoredMatch tieContext tieSecond) tieContext
     = (None, tieDisk(js ''src/components/y.html'' \<mapsto> js ''<div class='' @ dq @ js ''Yo'' @ dq @ js ''>''))"
proof -
  have p: "filePath tieSecond = js ''src/components/y.html''" "lineNumber tieSecond = 1"
    "matchedText tieSecond = js ''Hi''" "newText tieContext = js ''Yo''"
    by (simp_all add: tieSecond_def tieMatch_def tieContext_def)
  have d: "tieDisk (js ''src/components/y.html'') = Some tieLine"
    by (simp add: tieDisk_def)
  have n: "tieLine \<noteq> js ''<div class='' @ dq @ js ''Yo'' @ dq @ js ''>''"
    by (simp add: tieLine_def)
  show ?thesis
    unfolding updateSourceFile_def scoredMatch_fields p d
    using tie_rewrite tie_fallback by (simp add: tie_lines Let_def)
qed

lemma tie_result:
  "fst (processTextEdit asciiLib tieFiles tieDisk tieContext)
     = \<lparr> success = True, resultConfidence = 1,
         matchedFilePath = Some (js ''src/components/y.html''), resultLineNumber = Some 1,
         matchContext = Some tieLine, alternativeMatches = None, hasConflicts = False,
         errorMessage = None \<rparr>"
proof -
  have p: "filePath tieSecond = js ''src/components/y.html''" "lineNumber tieSecond = 1"
    "originalLine tieSecond = tieLine"
    by (simp_all add: tieSecond_def tieMatch_def)
  show ?thesis
    unfolding processTextEdit_def tie_scan tie_filter tie_scored tie_best Let_def
    by (simp add: tie_update tie_conf_second scoredMatch_fields p)
qed

text \<open>The same edit with every file listed twice.\<close>

lemma twice_scan:
  "findTextInSourceFiles asciiLib tieFilesTwice tieDisk (originalText tieContext)
     = [tieFirst, tieSecond, tieFirst, tieSecond]"
  by code_simp

lemma twice_filter:
  "filterByPageContext asciiLib [tieFirst, tieSecond, tieFirst, tieSecond] (pageContext tieContext)
     = [tieSecond, tieSecond, tieFirst, tieFirst]"
  by code_simp

lemma twice_scored:
  "scoreMatchesWithContext asciiLib tieDisk [tieSecond, tieSecond, tieFirst, tieFirst] tieContext
     = [scoredMatch tieContext tieSecond, scoredMatch tieContext tieSecond,
        scoredMatch tieContext tieFirst, scoredMatch tieContext tieFirst]"
  by (simp add: scoreMatchesWithContext_def tie_valid_first tie_valid_second
        tie_conf_first tie_conf_second)

lemma twice_best:
  "findBestMatch asciiLib
     [scoredMatch tieContext tieSecond, scoredMatch tieContext tieSecond,
      scoredMatch tieContext tieFirst, scoredMatch tieContext tieFirst]
     = Some (scoredMatch tieContext tieSecond)"
  by code_simp

lemma twice_result:
  "fst (processTextEdit asciiLib tieFilesTwice tieDisk tieContext)
     = \<lparr> success = True, resultConfidence = 1,
         matchedFilePath = Some (js ''src/components/y.html''), resultLineNumber = Some 1,
         matchContext = Some tieLine, alternativeMatches = None, hasConflicts = False,
         errorMessage = None \<rparr>"
proof -
  have p: "filePath tieSecond = js ''src/components/y.html''" "lineNumber tieSecond = 1"
    "originalLine tieSecond = tieLine"
    by (simp_all add: tieSecond_def tieMatch_def)
  show ?thesis
    unfolding processTextEdit_def twice_scan twice_filter twice_scored twice_best Let_def
    by (simp add: tie_update tie_conf_second scoredMatch_fields p)
qed

text \<open>
  Claim C1: the confidence of every result of \<open>processTextEdit\<close> is in [0, 1], a
  successful result has confidence at least 0.5, and the confidence of every scored
  match is its score divided by 4, capped at 1, and lies in [0, 1].
\<close>

theorem confidence_bounds:
  "0 \<le> resultConfidence (fst (processTextEdit L allFiles fs ctx))
   \<and> resultConfidence (fst (processTextEdit L allFiles fs ctx)) \<le> 1
   \<and> (success (fst (processTextEdit L allFiles fs ctx))
        \<longrightarrow> 1 / 2 \<le> resultConfidence (fst (processTextEdit L allFiles fs ctx)))
   \<and> (\<forall>sm \<in> set (scoreMatchesWithContext L fs ms ctx).
         confidence sm = min (score sm / 4) 1 \<and> 0 \<le> confidence sm \<and> confidence sm \<le> 1)"
proof -
  have sc: "confidence sm = min (score sm / 4) 1 \<and> 0 \<le> confidence sm \<and> confidence sm \<le> 1"
    if "sm \<in> set (scoreMatchesWithContext L fs ms' ctx)" for sm ms'
    using that scored_confidence[of ctx] by (auto simp: scored_shape scoredMatch_score)
  let ?scored = "scoreMatchesWithContext L fs
      (filterByPageContext L (findTextInSourceFiles L allFiles fs (originalText ctx)) (pageContext ctx)) ctx"
  have best: "0 \<le> confidence b \<and> confidence b \<le> 1" if "findBestMatch L ?scored = Some b" for b
    using best_mem[OF that] sc by blast
  have "0 \<le> resultConfidence (fst (processTextEdit L allFiles fs ctx))
   \<and> resultConfidence (fst (processTextEdit L allFiles fs ctx)) \<le> 1
   \<and> (success (fst (processTextEdit L allFiles fs ctx))
        \<longrightarrow> 1 / 2 \<le> resultConfidence (fst (processTextEdit L allFiles fs ctx)))"
    using best
    by (auto simp: processTextEdit_def Let_def failureResult_def split: option.splits prod.splits)
  with sc show ?thesis by blast
qed

theorem confidence_bounds_witness:
  "success (fst (processTextEdit asciiLib tieFiles tieDisk tieContext))
   \<and> 1 / 2 \<le> resultConfidence (fst (processTextEdit asciiLib tieFiles tieDisk tieContext))
   \<and> resultConfidence (fst (processTextEdit asciiLib tieFiles tieDisk tieContext)) \<le> 1
   \<and> scoredMatch tieContext tieSecond
         \<in> set (scoreMatchesWithContext asciiLib tieDisk [tieSecond, tieFirst] tieContext)
   \<and> 0 \<le> confidence (scoredMatch tieContext tieSecond)
   \<and> confidence (scoredMatch tieContext tieSecond) \<le> 1"
proof -
  have s: "success (fst (processTextEdit asciiLib tieFiles tieDisk tieContext))"
    by (simp add: tie_result)
  have m: "scoredMatch tieContext tieSecond
             \<in> set (scoreMatchesWithContext asciiLib tieDisk [tieSecond, tieFirst] tieContext)"
    by (simp add: tie_scored)
  show ?thesis
    using confidence_bounds [of asciiLib tieFiles tieDisk tieContext "[tieSecond, tieFirst]"] s m
    by blast
qed

text \<open>
  Claim C7: \<open>hasConflicts\<close> is true when at least two candidates pass validation, whether
  the edit succeeds or fails. The code does not do this on success: the return of a
  successful edit sets the flag to false, where the return of the low-confidence failure
  computes it as "more than one validated candidate". In the second example two
  candidates pass validation (four when every file is listed twice), the edit succeeds,
  and \<open>hasConflicts\<close> is false.
\<close>

theorem hasConflicts_false_with_two_candidates:
  "length (scoreMatchesWithContext asciiLib tieDisk
             (filterByPageContext asciiLib
                (findTextInSourceFiles asciiLib tieFiles tieDisk (originalText tieContext))
                (pageContext tieContext))
             tieContext) = 2
   \<and> success (fst (processTextEdit asciiLib tieFiles tieDisk tieContext))
   \<and> \<not> hasConflicts (fst (processTextEdit asciiLib tieFiles tieDisk tieContext))
   \<and> length (scoreMatchesWithContext asciiLib tieDisk
             (filterByPageContext asciiLib
                (findTextInSourceFiles asciiLib tieFilesTwice tieDisk (originalText tieContext))
                (pageContext tieContext))
             tieContext) = 4
   \<and> success (fst (processTextEdit asciiLib tieFilesTwice tieDisk tieContext))
   \<and> \<not> hasConflicts (fst (processTextEdit asciiLib tieFilesTwice tieDisk tieContext))"
  by (simp add: tie_scan tie_filter tie_scored tie_result twice_scan twice_filter twice_scored
        twice_result)

text \<open>
  The return that computes the flag is not reached with a candidate: every candidate of
  the scan is an exact match, whose confidence is 1, so the low-confidence failure needs
  an empty list of validated candidates. The flag is false in every result.
\<close>

lemma hasConflicts_always_false:
  "\<not> hasConflicts (fst (processTextEdit L allFiles fs ctx))"
proof -
  let ?scored = "scoreMatchesWithContext L fs
      (filterByPageContext L (findTextInSourceFiles L allFiles fs (originalText ctx)) (pageContext ctx)) ctx"
  have one: "confidence b = 1" if "findBestMatch L ?scored = Some b" for b
  proof -
    from best_mem[OF that] obtain m where
      "m \<in> set (filterByPageContext L (findTextInSourceFiles L allFiles fs (originalText ctx)) (pageContext ctx))"
      and b: "b = scoredMatch ctx m"
      by (auto simp: scored_shape)
    then have "isExactMatch m" using filter_subset scan_exact by blast
    with b show ?thesis by (simp add: scored_confidence_exact)
  qed
  have none: "?scored = []" if "findBestMatch L ?scored = None"
    using that unfolding findBestMatch_def by (auto split: list.splits)
  show ?thesis
    using one none
    by (auto simp: processTextEdit_def Let_def failureResult_def split: option.splits prod.splits)
qed

section \<open>The ranker\<close>

lemma filter_case_find:
  "(case filter P xs of [] \<Rightarrow> A | m # _ \<Rightarrow> Some m) = (if list_ex P xs then find P xs else A)"
  by (induction xs) auto

lemma find_sorted_max:
  "sorted_wrt (\<lambda>a b. confidence b \<le> confidence a) xs \<Longrightarrow> find P xs = Some b
     \<Longrightarrow> \<forall>m \<in> set xs. P m \<longrightarrow> confidence m \<le> confidence b"
  by (induction xs) (auto split: if_splits)

lemma high_confidence_head:
  assumes "sorted_wrt (\<lambda>a b. confidence b \<le> confidence a) (x # xs)"
    and "filter (\<lambda>m. confidence m > 1 / 2) (x # xs) = m # rest"
  shows "m = x"
proof (cases "confidence x > 1 / 2")
  case True
  with assms(2) show ?thesis by simp
next
  case False
  with assms(2) have "m \<in> set (filter (\<lambda>m. confidence m > 1 / 2) xs)" by simp
  then have "m \<in> set xs" "confidence m > 1 / 2" by simp_all
  with assms(1) False show ?thesis by fastforce
qed

lemma content_attribute_filter:
  "(\<lambda>m. if \<not> isTextContentMatch m \<or> \<not> isAttributeMatch m then False
         else hasContentAttributeKey L (originalLine m)) = contentAttributeMatch L"
  by (auto simp: contentAttributeMatch_def fun_eq_iff)

lemma findBestMatch_Cons:
  assumes "sorted_wrt (\<lambda>a b. confidence b \<le> confidence a) (x # xs)"
  shows "findBestMatch L (x # xs) =
          (if list_ex pureTextMatch (x # xs) then find pureTextMatch (x # xs)
           else if list_ex (contentAttributeMatch L) (x # xs) then find (contentAttributeMatch L) (x # xs)
           else if list_ex mixedMatch (x # xs) then find mixedMatch (x # xs)
           else Some x)"
proof -
  have last: "(case filter (\<lambda>m. 1 / 2 < confidence m) (x # xs) of
                 [] \<Rightarrow> Some x | [m] \<Rightarrow> Some x | m # _ # _ \<Rightarrow> Some m) = Some x"
    using high_confidence_head[OF assms]
    by (auto split: list.splits simp del: filter.simps)
  show ?thesis
    unfolding findBestMatch_def content_attribute_filter
      pureTextMatch_def[abs_def, symmetric] mixedMatch_def[abs_def, symmetric]
      list.case last filter_case_find ..
qed

lemma findBestMatch_find:
  assumes "sorted_wrt (\<lambda>a b. confidence b \<le> confidence a) ms"
  shows "findBestMatch L ms = find (selectionBucket L ms) ms"
proof (cases ms)
  case Nil
  then show ?thesis by (simp add: findBestMatch_def)
next
  case (Cons x xs)
  show ?thesis
    using assms unfolding Cons
    by (simp add: findBestMatch_Cons selectionBucket_def)
qed

text \<open>
  Claim C6, as the specification states it: in the last bucket the candidate of highest
  confidence is chosen, ties broken by the order of discovery. In the second example both
  candidates are attribute matches without text content and have confidence 1; the scan
  finds the file under \<^verbatim>\<open>src/lib\<close> first, and the file under \<^verbatim>\<open>src/components\<close>,
  which the page-context filter ranks higher, is chosen.
\<close>

theorem tie_broken_by_page_relevance:
  "map filePath (findTextInSourceFiles asciiLib tieFiles tieDisk (originalText tieContext))
     = [js ''src/lib/x.html'', js ''src/components/y.html'']
   \<and> map confidence
         (scoreMatchesWithContext asciiLib tieDisk
            (filterByPageContext asciiLib
               (findTextInSourceFiles asciiLib tieFiles tieDisk (originalText tieContext))
               (pageContext tieContext))
            tieContext) = [1, 1]
   \<and> list_all (\<lambda>m. \<not> isTextContentMatch m)
         (scoreMatchesWithContext asciiLib tieDisk
            (filterByPageContext asciiLib
               (findTextInSourceFiles asciiLib tieFiles tieDisk (originalText tieContext))
               (pageContext tieContext))
            tieContext)
   \<and> map_option filePath
         (findBestMatch asciiLib
            (scoreMatchesWithContext asciiLib tieDisk
               (filterByPageContext asciiLib
                  (findTextInSourceFiles asciiLib tieFiles tieDisk (originalText tieContext))
                  (pageContext tieContext))
               tieContext)) = Some (js ''src/components/y.html'')"
proof -
  have p: "filePath tieFirst = js ''src/lib/x.html''" "filePath tieSecond = js ''src/components/y.html''"
    "\<not> isTextContentMatch tieFirst" "\<not> isTextContentMatch tieSecond"
    by (simp_all add: tieFirst_def tieSecond_def tieMatch_def)
  show ?thesis
    unfolding tie_scan tie_filter tie_scored tie_best
    by (simp add: tie_conf_first tie_conf_second scoredMatch_fields p)
qed

text \<open>
  Claim C6, amended: on a list in descending order of confidence, as
  \<open>scoreMatchesWithContext\<close> returns it, \<open>findBestMatch\<close> selects the first element of the
  list that is in the first non-empty bucket, and no element of that bucket has a higher
  confidence. The list is ordered by confidence with a stable sort, so matches of equal
  confidence stay in the order in which the page-context filter passed them on.
\<close>

theorem findBestMatch_precedence:
  assumes "sorted_wrt (\<lambda>a b. confidence b \<le> confidence a) ms"
  shows "findBestMatch L ms = find (selectionBucket L ms) ms
         \<and> (\<forall>b. findBestMatch L ms = Some b \<longrightarrow>
               (\<forall>m \<in> set ms. selectionBucket L ms m \<longrightarrow> confidence m \<le> confidence b))
         \<and> sorted_wrt (\<lambda>a b. confidence b \<le> confidence a) (scoreMatchesWithContext L fs pm ctx)
         \<and> (\<forall>c. filter (\<lambda>s. confidence s = c) (scoreMatchesWithContext L fs pm ctx)
                  = filter (\<lambda>s. confidence s = c)
                      (map (scoredMatch ctx) (filter (passesValidation L fs ctx (length pm = 1)) pm)))"
proof -
  let ?valid = "map (scoredMatch ctx) (filter (passesValidation L fs ctx (length pm = 1)) pm)"
  have s: "scoreMatchesWithContext L fs pm ctx = sort_key (\<lambda>m. - confidence m) ?valid"
    by (simp add: scoreMatchesWithContext_def Let_def)
  have "sorted (map (\<lambda>m. - confidence m) (sort_key (\<lambda>m. - confidence m) ?valid))"
    by (rule sorted_sort_key)
  then have sorted: "sorted_wrt (\<lambda>a b. confidence b \<le> confidence a) (scoreMatchesWithContext L fs pm ctx)"
    unfolding s by (simp add: sorted_map)
  have stable: "filter (\<lambda>s. confidence s = c) (scoreMatchesWithContext L fs pm ctx)
                  = filter (\<lambda>s. confidence s = c) ?valid" for c
    using sort_key_stable[of "\<lambda>m. - confidence m" "- c" ?valid] unfolding s by simp
  show ?thesis
    using findBestMatch_find[OF assms] find_sorted_max[OF assms] sorted stable by auto
qed

theorem findBestMatch_precedence_witness:
  "findBestMatch asciiLib [scoredMatch tieContext tieSecond, scoredMatch tieContext tieFirst]
     = Some (scoredMatch tieContext tieSecond)
   \<and> find (selectionBucket asciiLib [scoredMatch tieContext tieSecond, scoredMatch tieContext tieFirst])
        [scoredMatch tieContext tieSecond, scoredMatch tieContext tieFirst]
     = Some (scoredMatch tieContext tieSecond)"
proof -
  have h: "sorted_wrt (\<lambda>a b. confidence b \<le> confidence a)
             [scoredMatch tieContext tieSecond, scoredMatch tieContext tieFirst]"
    by (simp add: tie_conf_first tie_conf_second)
  show ?thesis
    using findBestMatch_precedence [OF h, of asciiLib] tie_best by simp
qed

section \<open>The page-context filter\<close>

lemma sorted_take_drop:
  assumes "sorted (map f xs)"
  shows "\<forall>k \<in> set (take n xs). \<forall>d \<in> set (drop n xs). f k \<le> f d"
proof -
  have "sorted (map f (take n xs @ drop n xs))" using assms by simp
  then show ?thesis unfolding map_append sorted_append by auto
qed

text \<open>
  Claim C10, as stated: at most 10 candidates proceed to validation. With an empty page
  URL the filter returns all of them.
\<close>

theorem page_filter_keeps_all_without_url:
  "length (filterByPageContext asciiLib (replicate 11 exampleMatch)
             \<lparr> pageUrl = [], pageTitle = None, fullUrl = None \<rparr>) = 11"
  by (simp add: filterByPageContext_def)

text \<open>
  Claim C10, amended: with an empty page URL every candidate proceeds; otherwise the
  first 10 in descending order of page relevance proceed, none of them less relevant
  than a discarded one. Every scored match, and every alternative match of a result,
  comes from a candidate that proceeded.
\<close>

theorem page_filter_limit:
  "(pageUrl pc = [] \<longrightarrow> filterByPageContext L ms pc = ms)
   \<and> (pageUrl pc \<noteq> [] \<longrightarrow>
        filterByPageContext L ms pc = take 10 (sort_key (\<lambda>m. - int (pageRelevance L pc m)) ms)
        \<and> length (filterByPageContext L ms pc) \<le> 10
        \<and> (\<forall>k \<in> set (filterByPageContext L ms pc).
             \<forall>d \<in> set (drop 10 (sort_key (\<lambda>m. - int (pageRelevance L pc m)) ms)).
               pageRelevance L pc d \<le> pageRelevance L pc k))
   \<and> (\<forall>a \<in> set (scoreMatchesWithContext L fs (filterByPageContext L ms pc) ctx).
         FileMatch.truncate a \<in> set (filterByPageContext L ms pc))
   \<and> (case alternativeMatches (fst (processTextEdit L allFiles fs ctx)) of
         None \<Rightarrow> True
       | Some alternatives \<Rightarrow>
           \<forall>a \<in> set alternatives.
             FileMatch.truncate a
               \<in> set (filterByPageContext L
                        (findTextInSourceFiles L allFiles fs (originalText ctx)) (pageContext ctx)))"
proof -
  have kept: "filterByPageContext L ms pc = take 10 (sort_key (\<lambda>m. - int (pageRelevance L pc m)) ms)"
    if "pageUrl pc \<noteq> []"
    using that by (simp add: filterByPageContext_def pageRelevance_def Let_def)
  have order: "\<forall>k \<in> set (take 10 (sort_key (\<lambda>m. - int (pageRelevance L pc m)) ms)).
             \<forall>d \<in> set (drop 10 (sort_key (\<lambda>m. - int (pageRelevance L pc m)) ms)).
               pageRelevance L pc d \<le> pageRelevance L pc k"
    using sorted_take_drop[of "\<lambda>m. - int (pageRelevance L pc m)"
            "sort_key (\<lambda>m. - int (pageRelevance L pc m)) ms" 10]
          sorted_sort_key[of "\<lambda>m. - int (pageRelevance L pc m)" ms]
    by simp
  have scored: "\<forall>a \<in> set (scoreMatchesWithContext L fs ms' ctx). FileMatch.truncate a \<in> set ms'" for ms'
    by (auto simp: scored_shape scoredMatch_fields)
  have alts: "(case alternativeMatches (fst (processTextEdit L allFiles fs ctx)) of
         None \<Rightarrow> True
       | Some alternatives \<Rightarrow>
           \<forall>a \<in> set alternatives.
             FileMatch.truncate a
               \<in> set (filterByPageContext L
                        (findTextInSourceFiles L allFiles fs (originalText ctx)) (pageContext ctx)))"
    using scored
    by (auto simp: processTextEdit_def Let_def failureResult_def split: option.splits prod.splits)
  show ?thesis
    using kept order scored alts by (auto simp: filterByPageContext_def)
qed

theorem page_filter_limit_witness:
  "pageUrl (pageContext exampleContext) \<noteq> []
   \<and> length (replicate 11 exampleMatch) = 11
   \<and> length (filterByPageContext asciiLib (replicate 11 exampleMatch) (pageContext exampleContext)) = 10"
proof -
  have h: "pageUrl (pageContext exampleContext) \<noteq> []"
    by (simp add: exampleContext_def)
  from page_filter_limit [of "pageContext exampleContext" asciiLib "replicate 11 exampleMatch"] h
  have "filterByPageContext asciiLib (replicate 11 exampleMatch) (pageContext exampleContext)
          = take 10 (sort_key (\<lambda>m. - int (pageRelevance asciiLib (pageContext exampleContext) m))
                       (replicate 11 exampleMatch))"
    by blast
  then show ?thesis using h by simp
qed

section \<open>The context validator\<close>

text \<open>
  The threshold of the validation, as a table: 1 when the request has an element id, the
  flag \<open>isUniqueText\<close> is set, or the request has at least 3 element classes; otherwise 3
  when a parent text is given and normalises to the same as the original text; otherwise
  2 when the trimmed original text is shorter than 10, else 1. The validation is a hard
  filter: the scored matches are the candidates whose validation is not rejected
  outright and whose score reaches the threshold.
\<close>

lemma minRequiredScore_table:
  "minRequiredScore ctx u =
     (if hasElementId ctx \<or> u
          \<or> 3 \<le> (case elementClasses (elementContext ctx) of None \<Rightarrow> 0 | Some cs \<Rightarrow> length cs)
      then 1
      else if (\<exists>p. parentTextOf ctx = Some p \<and> cleanSearchText p = cleanSearchText (originalText ctx))
      then 3
      else if length (trim (originalText ctx)) < 10 then 2 else 1)"
proof -
  have minimal: "hasMinimalContext ctx
      \<longleftrightarrow> (\<exists>p. parentTextOf ctx = Some p \<and> cleanSearchText p = cleanSearchText (originalText ctx))"
    by (auto simp: hasMinimalContext_def clean_trimmed split: option.splits)
  show ?thesis
    unfolding minRequiredScore_def hasStrongElementContext_def minimal by auto
qed

lemma scored_iff_threshold:
  "FileMatch.truncate ` set (scoreMatchesWithContext L fs ms ctx)
     = {m \<in> set ms. \<exists>s. validationScore L fs m ctx (length ms = 1) = Some s
                          \<and> minRequiredScore ctx (length ms = 1) \<le> s}"
proof -
  have kept: "FileMatch.truncate ` set (scoreMatchesWithContext L fs ms ctx)
                = {m \<in> set ms. passesValidation L fs ctx (length ms = 1) m}"
    by (auto simp: scored_shape scoredMatch_fields image_iff)
  show ?thesis
    unfolding kept
    by (auto simp: passesValidation_def validateExactContext_def split: option.splits)
qed

text \<open>
  In the second project, a request whose parent text says no more than the text itself
  has threshold 3; the candidate has score 1 and is not among the scored matches.
\<close>

lemma minimal_threshold: "minRequiredScore minimalContext False = 3"
  by code_simp

lemma minimal_score: "validationScore asciiLib tieDisk tieFirst minimalContext False = Some 1"
  by code_simp

lemma minimal_dropped:
  "tieFirst \<notin> FileMatch.truncate `
     set (scoreMatchesWithContext asciiLib tieDisk [tieFirst, tieSecond] minimalContext)"
  unfolding scored_iff_threshold by (simp add: minimal_threshold minimal_score)

text \<open>
  The flag is \<^verbatim>\<open>matches.length === 1\<close> on the candidates that the page filter returns,
  and the filter returns one candidate exactly when the scan found one.
\<close>

lemma unique_flag:
  "length (filterByPageContext L ms pc) = 1 \<longleftrightarrow> length ms = 1"
  by (auto simp: filterByPageContext_def Let_def min_def)

text \<open>The edit of the third example project, with its file listed once and twice.\<close>

lemma once_scan:
  "findTextInSourceFiles asciiLib onceFiles onceDisk (originalText onceContext) = [tieFirst]"
  by code_simp

lemma once_scan_twice:
  "findTextInSourceFiles asciiLib twiceFiles onceDisk
     (originalText onceContext) = [tieFirst, tieFirst]"
  by code_simp

lemma once_filter:
  "filterByPageContext asciiLib [tieFirst] (pageContext onceContext) = [tieFirst]"
  "filterByPageContext asciiLib [tieFirst, tieFirst] (pageContext onceContext) = [tieFirst, tieFirst]"
  by code_simp+

lemma once_threshold:
  "minRequiredScore onceContext False = 2" "minRequiredScore onceContext True = 1"
  by code_simp+

lemma once_score:
  "validationScore asciiLib onceDisk tieFirst onceContext False = Some 1"
  "validationScore asciiLib onceDisk tieFirst onceContext True = Some 4"
  by code_simp+

lemma once_unique:
  "globallyUnique asciiLib twiceFiles onceDisk
     (originalText onceContext) tieFirst"
  unfolding globallyUnique_def matchingLines_def once_scan_twice
  by (simp add: tieFirst_def tieMatch_def)

lemma once_rejected: "\<not> passesValidation asciiLib onceDisk onceContext False tieFirst"
  by (simp add: passesValidation_def validateExactContext_def once_score once_threshold)

lemma once_accepted: "passesValidation asciiLib onceDisk onceContext True tieFirst"
  by (simp add: passesValidation_def validateExactContext_def once_score once_threshold)

lemma once_scored_twice:
  "scoreMatchesWithContext asciiLib onceDisk [tieFirst, tieFirst] onceContext = []"
  by (simp add: scoreMatchesWithContext_def once_rejected)

lemma once_scored:
  "scoreMatchesWithContext asciiLib onceDisk [tieFirst] onceContext = [scoredMatch onceContext tieFirst]"
  by (simp add: scoreMatchesWithContext_def once_accepted)

lemma once_best:
  "findBestMatch asciiLib [scoredMatch onceContext tieFirst] = Some (scoredMatch onceContext tieFirst)"
  by code_simp

lemma once_conf: "confidence (scoredMatch onceContext tieFirst) = 1"
  by code_simp

lemma once_update:
  "fst (updateSourceFile onceDisk (scoredMatch onceContext tieFirst) onceContext) = None"
proof -
  have p: "filePath tieFirst = js ''src/lib/x.html''" "lineNumber tieFirst = 1"
    by (simp_all add: tieFirst_def tieMatch_def)
  have d: "onceDisk (js ''src/lib/x.html'') = Some tieLine"
    by (simp add: onceDisk_def)
  show ?thesis
    unfolding updateSourceFile_def scoredMatch_fields p d
    by (simp add: tie_lines Let_def)
qed

text \<open>
  Claim C5: the threshold is 1 when the candidate is globally unique. The code does not
  do this for a file that is listed twice: in the third project the text is on one line
  of one file, the only line of the corpus that matches, and the request has no element
  id and no classes. Listed twice, the line is two candidates, the flag is not set, the
  threshold is 2 and the uniqueness bonus is not given; the candidate, with score 1, is
  dropped and the edit fails. Listed once, the threshold is 1, the score is 4, and the
  edit succeeds.
\<close>

theorem unique_text_listed_twice:
  "globallyUnique asciiLib twiceFiles onceDisk
     (originalText onceContext) tieFirst
   \<and> \<not> hasElementId onceContext
   \<and> filterByPageContext asciiLib
         (findTextInSourceFiles asciiLib twiceFiles onceDisk
            (originalText onceContext))
         (pageContext onceContext) = [tieFirst, tieFirst]
   \<and> minRequiredScore onceContext (length [tieFirst, tieFirst] = 1) = 2
   \<and> validationScore asciiLib onceDisk tieFirst onceContext (length [tieFirst, tieFirst] = 1) = Some 1
   \<and> scoreMatchesWithContext asciiLib onceDisk [tieFirst, tieFirst] onceContext = []
   \<and> fst (processTextEdit asciiLib twiceFiles onceDisk onceContext)
       = failureResult 0 False (Some []) NoMatchesFound
   \<and> minRequiredScore onceContext (length [tieFirst] = 1) = 1
   \<and> validationScore asciiLib onceDisk tieFirst onceContext (length [tieFirst] = 1) = Some 4
   \<and> success (fst (processTextEdit asciiLib onceFiles onceDisk onceContext))"
proof -
  have id: "\<not> hasElementId onceContext" by code_simp
  have twice: "fst (processTextEdit asciiLib twiceFiles onceDisk onceContext)
       = failureResult 0 False (Some []) NoMatchesFound"
    unfolding processTextEdit_def once_scan_twice once_filter once_scored_twice Let_def
    by (simp add: findBestMatch_def)
  have once: "success (fst (processTextEdit asciiLib onceFiles onceDisk onceContext))"
    unfolding processTextEdit_def once_scan once_filter once_scored once_best Let_def
    using once_update by (auto simp: once_conf split: prod.splits option.splits)
  have f: "filterByPageContext asciiLib
         (findTextInSourceFiles asciiLib twiceFiles onceDisk (originalText onceContext))
         (pageContext onceContext) = [tieFirst, tieFirst]"
    unfolding once_scan_twice by (rule once_filter)
  have t2: "minRequiredScore onceContext (length [tieFirst, tieFirst] = 1) = 2"
    using once_threshold(1) by simp
  have v2: "validationScore asciiLib onceDisk tieFirst onceContext (length [tieFirst, tieFirst] = 1) = Some 1"
    using once_score(1) by simp
  have t1: "minRequiredScore onceContext (length [tieFirst] = 1) = 1"
    using once_threshold(2) by simp
  have v1: "validationScore asciiLib onceDisk tieFirst onceContext (length [tieFirst] = 1) = Some 4"
    using once_score(2) by simp
  show ?thesis
    using once_unique id f t2 v2 once_scored_twice twice t1 v1 once by blast
qed

section \<open>The corpus scanner\<close>

lemma scan_memD:
  assumes "m \<in> set (findTextInSourceFiles L allFiles fs text)"
  shows "\<exists>p content i v.
           m = candidateMatch L p (splitOn 10 content) (cleanSearchText text)
                 (extractDynamicPart (cleanSearchText text)) i v
           \<and> p \<in> set allFiles \<and> fs p = Some content \<and> i < length (splitOn 10 content)
           \<and> v \<in> set (extractDynamicPart (cleanSearchText text))
           \<and> hasExactTextMatch (splitOn 10 content ! i) v"
  using assms unfolding findTextInSourceFiles_def scanFile_def Let_def
  by (auto split: option.splits if_splits) metis+

lemma scan_memI:
  assumes "p \<in> set allFiles" and "fs p = Some content" and "i < length (splitOn 10 content)"
    and "v \<in> set (extractDynamicPart (cleanSearchText text))"
    and "hasExactTextMatch (splitOn 10 content ! i) v"
  shows "candidateMatch L p (splitOn 10 content) (cleanSearchText text)
           (extractDynamicPart (cleanSearchText text)) i v
         \<in> set (findTextInSourceFiles L allFiles fs text)"
proof -
  have "candidateMatch L p (splitOn 10 content) (cleanSearchText text)
           (extractDynamicPart (cleanSearchText text)) i v
         \<in> set (scanFile L p content (cleanSearchText text) (extractDynamicPart (cleanSearchText text)))"
    unfolding scanFile_def Let_def using assms(3-5)
    by (auto intro!: bexI[of _ i] bexI[of _ v])
  then show ?thesis
    unfolding findTextInSourceFiles_def Let_def using assms(1,2)
    by (auto intro!: bexI[of _ p])
qed

lemma candidate_key:
  "filePath (candidateMatch L p ls c vs i v) = p"
  "lineNumber (candidateMatch L p ls c vs i v) = Suc i"
  "variationOf c (candidateMatch L p ls c vs i v) = v"
  by (simp_all add: candidateMatch_def variationOf_def Let_def)

text \<open>
  Claim C4: the scan pushes a match for a line of a listed, readable file and a
  variation exactly when \<open>hasExactTextMatch\<close> holds for that line and variation; that the
  normalised line contains the variation does not matter.
\<close>

theorem scan_emits_exact_matches:
  "emitted (findTextInSourceFiles L allFiles fs text) (cleanSearchText text) p i v
     \<longleftrightarrow> (p \<in> set allFiles
          \<and> (case fs p of
                None \<Rightarrow> False
              | Some content \<Rightarrow>
                  i < length (splitOn 10 content)
                  \<and> v \<in> set (extractDynamicPart (cleanSearchText text))
                  \<and> hasExactTextMatch (splitOn 10 content ! i) v))"
proof
  assume "emitted (findTextInSourceFiles L allFiles fs text) (cleanSearchText text) p i v"
  then obtain m where "m \<in> set (findTextInSourceFiles L allFiles fs text)"
    and "filePath m = p" "lineNumber m = Suc i" "variationOf (cleanSearchText text) m = v"
    unfolding emitted_def list_ex_iff by blast
  with scan_memD[of m L allFiles fs "text"]
  show "p \<in> set allFiles
          \<and> (case fs p of
                None \<Rightarrow> False
              | Some content \<Rightarrow>
                  i < length (splitOn 10 content)
                  \<and> v \<in> set (extractDynamicPart (cleanSearchText text))
                  \<and> hasExactTextMatch (splitOn 10 content ! i) v)"
    by (auto simp: candidate_key)
next
  assume r: "p \<in> set allFiles
          \<and> (case fs p of
                None \<Rightarrow> False
              | Some content \<Rightarrow>
                  i < length (splitOn 10 content)
                  \<and> v \<in> set (extractDynamicPart (cleanSearchText text))
                  \<and> hasExactTextMatch (splitOn 10 content ! i) v)"
  then obtain content where "fs p = Some content" "i < length (splitOn 10 content)"
    "v \<in> set (extractDynamicPart (cleanSearchText text))"
    "hasExactTextMatch (splitOn 10 content ! i) v"
    by (auto split: option.splits)
  with r scan_memI[of p allFiles fs content i v "text" L]
  show "emitted (findTextInSourceFiles L allFiles fs text) (cleanSearchText text) p i v"
    unfolding emitted_def list_ex_iff by (auto simp: candidate_key intro!: bexI)
qed

lemma quoted_variations: "extractDynamicPart (cleanSearchText (js ''Hi'')) = [js ''Hi'']"
  by code_simp

lemma quoted_lines:
  "splitOn 10 (dq @ js ''Hi'' @ dq @ [10] @ dq @ js ''Hi there'' @ dq)
     = [dq @ js ''Hi'' @ dq, dq @ js ''Hi there'' @ dq]"
  by code_simp

lemma quoted_exact:
  "hasExactTextMatch (dq @ js ''Hi'' @ dq) (js ''Hi'')"
  "\<not> hasExactTextMatch (dq @ js ''Hi there'' @ dq) (js ''Hi'')"
  "str_includes (cleanSearchText (dq @ js ''Hi there'' @ dq)) (js ''Hi'')"
  by code_simp+

theorem scan_emits_exact_matches_witness:
  "emitted (findTextInSourceFiles asciiLib [js ''a.json''] quotedFiles (js ''Hi''))
     (cleanSearchText (js ''Hi'')) (js ''a.json'') 0 (js ''Hi'')
   \<and> str_includes (cleanSearchText (dq @ js ''Hi there'' @ dq)) (js ''Hi'')
   \<and> \<not> emitted (findTextInSourceFiles asciiLib [js ''a.json''] quotedFiles (js ''Hi''))
         (cleanSearchText (js ''Hi'')) (js ''a.json'') 1 (js ''Hi'')"
proof -
  have f: "quotedFiles (js ''a.json'') = Some (dq @ js ''Hi'' @ dq @ [10] @ dq @ js ''Hi there'' @ dq)"
    by (simp add: quotedFiles_def)
  show ?thesis
    unfolding scan_emits_exact_matches [of asciiLib "[js ''a.json'']" quotedFiles "js ''Hi''"] f
      option.case quoted_lines quoted_variations
    using quoted_exact by simp
qed

section \<open>The replacement in a line with tags\<close>

lemma getSubstitution_plain: "36 \<notin> set r \<Longrightarrow> getSubstitution m pre post r = r"
  by (induction m pre post r rule: getSubstitution.induct) auto

lemma replaceFirstFrom_at:
  "\<forall>i < length a. \<not> prefix t (drop i (a @ t @ b))
     \<Longrightarrow> replaceFirstFrom t r pre (a @ t @ b) = a @ getSubstitution t (pre @ a) b r @ b"
proof (induction a arbitrary: pre)
  case Nil
  show ?case
  proof (cases "t @ b")
    case Nil
    then show ?thesis by simp
  next
    case (Cons c cs)
    have p: "prefix t (c # cs)" unfolding Cons[symmetric] by simp
    have d: "drop (length t) (c # cs) = b" unfolding Cons[symmetric] by simp
    show ?thesis using p d Cons by simp
  qed
next
  case (Cons c a)
  from Cons.prems have "\<not> prefix t (c # a @ t @ b)" by force
  moreover from Cons.prems have "\<forall>i < length a. \<not> prefix t (drop i (a @ t @ b))" by force
  ultimately show ?case using Cons.IH[of "pre @ [c]"] by simp
qed

lemma set_replaceAllFrom:
  "36 \<notin> set rep \<Longrightarrow> set (replaceAllFrom pat rep pre s) \<subseteq> set s \<union> set rep"
proof (induction pat rep pre s rule: replaceAllFrom.induct)
  case (1 pat rep pre s)
  show ?case
  proof (cases "pat \<noteq> [] \<and> prefix pat s")
    case True
    then have "set (drop (length pat) s) \<subseteq> set s" by (meson set_drop_subset)
    with True 1 show ?thesis
      by (subst replaceAllFrom.simps) (auto simp: getSubstitution_plain)
  next
    case False
    show ?thesis
    proof (cases s)
      case Nil
      with False "1.prems" show ?thesis
        by (subst replaceAllFrom.simps) (auto simp: getSubstitution_plain)
    next
      case (Cons c cs)
      have "set (replaceAllFrom pat rep (pre @ [c]) cs) \<subseteq> set cs \<union> set rep"
        using "1.IH"(2)[OF False Cons "1.prems"] .
      with False Cons "1.prems" show ?thesis
        by (subst replaceAllFrom.simps) (auto simp: getSubstitution_plain)
    qed
  qed
qed

lemma rewriteSegment_at:
  assumes "str_includes t old" and "36 \<notin> set new" and "36 \<notin> set t"
    and "\<forall>i < length a. \<not> prefix t (drop i (a @ t @ b))"
  shows "rewriteSegment old new (a @ t @ b) t = a @ replaceAll old new t @ b"
proof -
  have "36 \<notin> set (replaceAll old new t)"
    using set_replaceAllFrom[OF assms(2), of old "[]" t] assms(2,3)
    unfolding replaceAll_def by auto
  then show ?thesis
    using assms(1) replaceFirstFrom_at[OF assms(4), of "replaceAll old new t" "[]"]
    by (simp add: rewriteSegment_def replaceFirst_def getSubstitution_plain)
qed

lemma rewrite_nothing:
  "\<forall>t \<in> set segs. \<not> str_includes t old \<Longrightarrow> foldl (rewriteSegment old new) line segs = line"
  by (induction segs) (auto simp: rewriteSegment_def)

lemma tag_strategy_fold:
  "usesTagStrategy line \<Longrightarrow>
     replaceTextContent line old new = foldl (rewriteSegment old new) line (tagSegments line)"
  unfolding usesTagStrategy_def replaceTextContent_def tagSegments_def Let_def
  by (auto simp: foldl_map split: option.splits)

text \<open>
  Claim C9, as the specification states it: in a line with angle brackets the old text
  is rewritten only between \<^verbatim>\<open>>\<close> and \<^verbatim>\<open><\<close>, before the first tag or after the last,
  never inside a tag. The line of the second example is one tag, none of its texts
  contains the old text, and \<open>updateSourceFile\<close> rewrites the attribute value inside the
  tag: when \<open>replaceTextContent\<close> changes nothing, it replaces the first occurrence of the
  matched text in the line.
\<close>

lemma tie_tag_line: "usesTagStrategy tieLine"
  by code_simp

lemma tie_segments: "list_all (\<lambda>t. \<not> str_includes t (js ''Hi'')) (tagSegments tieLine)"
  by code_simp

theorem rewrite_inside_tag:
  "usesTagStrategy tieLine
   \<and> list_all (\<lambda>t. \<not> str_includes t (js ''Hi'')) (tagSegments tieLine)
   \<and> matchedText tieSecond = js ''Hi''
   \<and> updateSourceFile tieDisk tieSecond tieContext
       = (None, tieDisk(js ''src/components/y.html'' \<mapsto> js ''<div class='' @ dq @ js ''Yo'' @ dq @ js ''>''))"
proof -
  have p: "filePath tieSecond = js ''src/components/y.html''" "lineNumber tieSecond = 1"
    "matchedText tieSecond = js ''Hi''" "newText tieContext = js ''Yo''"
    by (simp_all add: tieSecond_def tieMatch_def tieContext_def)
  have d: "tieDisk (js ''src/components/y.html'') = Some tieLine"
    by (simp add: tieDisk_def)
  have "updateSourceFile tieDisk tieSecond tieContext
       = (None, tieDisk(js ''src/components/y.html'' \<mapsto> js ''<div class='' @ dq @ js ''Yo'' @ dq @ js ''>''))"
    unfolding updateSourceFile_def p d
    using tie_rewrite tie_fallback by (simp add: tie_lines Let_def)
  with tie_tag_line tie_segments p(3) show ?thesis by blast
qed

text \<open>
  Claim C9, amended: for a line that takes the third strategy, \<open>replaceTextContent\<close>
  rewrites the line once for each text between tags, before the first tag and after the
  last; it leaves the line as it is when none of these texts contains the old text, and
  \<open>updateSourceFile\<close> then replaces the first occurrence of the matched text anywhere in
  the line. A rewrite for a text that contains the old text replaces, literally, every
  occurrence of the old text in that text and nothing else, provided the text does not
  occur earlier in the line and neither it nor the new text has a dollar sign.
\<close>

theorem tag_strategy:
  assumes "usesTagStrategy line"
  shows "replaceTextContent line old new = foldl (rewriteSegment old new) line (tagSegments line)
   \<and> ((\<forall>t \<in> set (tagSegments line). \<not> str_includes t old) \<longrightarrow>
        replaceTextContent line old new = line)
   \<and> (\<forall>a t b. str_includes t old \<and> 36 \<notin> set new \<and> 36 \<notin> set t
           \<and> (\<forall>i < length a. \<not> prefix t (drop i (a @ t @ b)))
         \<longrightarrow> rewriteSegment old new (a @ t @ b) t = a @ replaceAll old new t @ b)
   \<and> (\<forall>fs (m :: FileMatch) ctx content.
         fs (filePath m) = Some content \<and> 0 < lineNumber m
         \<and> lineNumber m \<le> length (splitOn 10 content)
         \<and> replaceTextContent (splitOn 10 content ! (lineNumber m - 1)) (matchedText m) (newText ctx)
             = splitOn 10 content ! (lineNumber m - 1)
         \<longrightarrow> updateSourceFile fs m ctx
             = (None, fs(filePath m \<mapsto>
                  joinWith 10 ((splitOn 10 content)
                    [lineNumber m - 1 :=
                       replaceFirst (matchedText m) (newText ctx)
                         (splitOn 10 content ! (lineNumber m - 1))]))))"
proof -
  have fallback: "updateSourceFile fs m ctx
             = (None, fs(filePath m \<mapsto>
                  joinWith 10 ((splitOn 10 content)
                    [lineNumber m - 1 :=
                       replaceFirst (matchedText m) (newText ctx)
                         (splitOn 10 content ! (lineNumber m - 1))])))"
    if "fs (filePath m) = Some content" "0 < lineNumber m"
      "lineNumber m \<le> length (splitOn 10 content)"
      "replaceTextContent (splitOn 10 content ! (lineNumber m - 1)) (matchedText m) (newText ctx)
             = splitOn 10 content ! (lineNumber m - 1)"
    for fs and m :: FileMatch and ctx content
    using that by (simp add: updateSourceFile_def Let_def)
  show ?thesis
    using tag_strategy_fold[OF assms] rewrite_nothing rewriteSegment_at fallback
    by (metis (no_types, lifting))
qed

lemma example_tag_line: "usesTagStrategy (js ''<p>Hi</p>'')"
  by code_simp

theorem tag_strategy_witness:
  "usesTagStrategy (js ''<p>Hi</p>'')
   \<and> replaceTextContent (js ''<p>Hi</p>'') (js ''Hi'') (js ''Yo'') = js ''<p>Yo</p>''
   \<and> foldl (rewriteSegment (js ''Hi'') (js ''Yo'')) (js ''<p>Hi</p>'') (tagSegments (js ''<p>Hi</p>''))
       = js ''<p>Yo</p>''"
  using tag_strategy [OF example_tag_line, of "js ''Hi''" "js ''Yo''"] example_rewrite example_tag_line
  by simp

text \<open>
  Where a text between tags does occur earlier in the line, the rewrite goes to that
  earlier occurrence: \<^verbatim>\<open>result.replace(textContent, ...)\<close> searches the whole line.
\<close>

lemma first_occurrence_slip:
  "tagSegments slipLine = [js ''Home'', [], []]
   \<and> replaceTextContent slipLine (js ''Home'') (js ''Hello'')
       = js ''<p id='' @ dq @ js ''Hello'' @ dq @ js ''>Home</p>''"
  by code_simp

end
